theory Spec2Isabelle
  imports Complex_Main
begin

section \<open>Battery operating-plan engine: data model\<close>

text \<open>
  Embedding of \<^verbatim>\<open>ERCOT_BESS_COP_Automation.py\<close>. Python floats are idealised as
  \<^typ>\<open>real\<close> (no rounding, no NaN, no infinities). Timestamps are whole hours counted
  from a midnight, so the hour of day is the timestamp modulo 24. A pandas DataFrame is
  the list of its rows; the frame's index label is kept in each row. Source names are
  kept, without the leading underscore of private methods; a column whose name clashes
  with a field of \<^verbatim>\<open>BESSParameters\<close> carries the prefix \<^verbatim>\<open>col_\<close>.
\<close>

type_synonym timestamp = nat

datatype ResourceStatus =
  ON | OFF | ONTEST | ONREG | ONRR | ONECRS | OFFNS | OFFQS | OUT | STARTUP | SHUTDOWN | ONEMR

record BESSParameters =
  resource_name :: string
  capacity_mw :: real
  capacity_mwh :: real
  efficiency :: real
  ramp_rate_up :: real
  ramp_rate_down :: real
  min_soc :: real
  max_soc :: real
  aux_load :: real

definition bess_hsl :: "BESSParameters \<Rightarrow> real" where
  "bess_hsl b = capacity_mw b"

definition bess_lsl :: "BESSParameters \<Rightarrow> real" where
  "bess_lsl b = - capacity_mw b"

datatype op_mode = charge | discharge | hold

text \<open>
  The one exception of the modelled paths: pandas raises \<^verbatim>\<open>ValueError\<close> when the truth
  value of a comparison on a Series is taken, which happens where \<^verbatim>\<open>.loc\<close> meets an index
  label that occurs more than once.
\<close>

datatype py_error = ValueError

text \<open>
  The columns a frame has before \<^verbatim>\<open>_add_cop_fields\<close> runs. \<^verbatim>\<open>idx\<close> is the index label
  of the row. The cells of \<^verbatim>\<open>hour_ending\<close> and \<^verbatim>\<open>resource_name\<close> are never read by any
  computation, only tested for null, so they are options (\<^term>\<open>None\<close> is a null cell).
\<close>

record plan_hour =
  idx :: timestamp
  hour_ending :: "timestamp option"
  col_resource_name :: "string option"
  status :: ResourceStatus
  hsl :: real
  lsl :: real
  soc_begin :: real
  mode :: op_mode
  target_mw :: real
  soc_min :: real
  soc_max :: real

text \<open>The columns \<^verbatim>\<open>_add_cop_fields\<close> adds.\<close>

record cop_hour = plan_hour +
  normal_ramp_up :: real
  normal_ramp_down :: real
  emergency_ramp_up :: real
  emergency_ramp_down :: real
  hel :: real
  lel :: real
  col_aux_load :: real
  resource_type :: string
  fuel_type :: string

section \<open>COPGenerator\<close>

subsection \<open>SOC trajectory\<close>

text \<open>
  \<^verbatim>\<open>_calculate_soc_trajectory\<close>: the loop over \<^verbatim>\<open>range(len(cop))\<close> writes the SOC of row
  \<open>i\<close> from the SOC and target of row \<open>i - 1\<close>; the recursion carries the SOC of
  the row at the head.
\<close>

definition soc_change_of :: "BESSParameters \<Rightarrow> real \<Rightarrow> real" where
  "soc_change_of b prev_target =
     (if prev_target > 0 then - prev_target
      else if prev_target < 0 then - prev_target * efficiency b
      else 0)"

fun soc_loop :: "BESSParameters \<Rightarrow> real \<Rightarrow> 'a plan_hour_scheme list \<Rightarrow> 'a plan_hour_scheme list" where
  "soc_loop b s [] = []"
| "soc_loop b s (r # rs) =
     r\<lparr>soc_begin := s\<rparr> # soc_loop b (s + soc_change_of b (target_mw r)) rs"

definition calculate_soc_trajectory ::
  "BESSParameters \<Rightarrow> real option \<Rightarrow> 'a plan_hour_scheme list \<Rightarrow> 'a plan_hour_scheme list" where
  "calculate_soc_trajectory b initial_soc cop =
     (let s0 = (case initial_soc of None \<Rightarrow> max_soc b * 0.5 | Some s \<Rightarrow> s)
      in map (\<lambda>r. r\<lparr>soc_min := max (min_soc b) (soc_begin r - bess_hsl b),
                     soc_max := min (max_soc b) (soc_begin r + \<bar>bess_lsl b\<bar> * efficiency b)\<rparr>)
           (soc_loop b s0 cop))"

subsection \<open>Default plan and price-driven plan\<close>

text \<open>
  A row is built with all its cells at once; the cells \<^verbatim>\<open>soc_begin\<close>, \<^verbatim>\<open>soc_min\<close> and
  \<^verbatim>\<open>soc_max\<close> are written by \<^verbatim>\<open>_calculate_soc_trajectory\<close> before anything reads them.
\<close>

definition default_row :: "BESSParameters \<Rightarrow> timestamp \<Rightarrow> plan_hour" where
  "default_row b hour =
     (let hour_of_day = hour mod 24;
          (m, t) = (if hour_of_day < 6 then (charge, bess_lsl b * 0.8)
                    else if 6 \<le> hour_of_day \<and> hour_of_day < 10 then (hold, 0)
                    else if 14 \<le> hour_of_day \<and> hour_of_day < 20 then (discharge, bess_hsl b * 0.9)
                    else (hold, 0))
      in \<lparr>idx = hour, hour_ending = Some hour, col_resource_name = Some (resource_name b),
          status = ON, hsl = bess_hsl b, lsl = bess_lsl b, soc_begin = max_soc b * 0.5,
          mode = m, target_mw = t, soc_min = 0, soc_max = 0\<rparr>)"

definition generate_default_plan :: "BESSParameters \<Rightarrow> timestamp list \<Rightarrow> plan_hour list" where
  "generate_default_plan b hours = calculate_soc_trajectory b None (map (default_row b) hours)"

text \<open>
  The price forecast frame: its rows in order, each an index label with the cell of the
  \<^verbatim>\<open>price\<close> column (\<^term>\<open>None\<close> is NaN), and whether the frame has a \<^verbatim>\<open>price\<close> column at
  all. The frame is taken to have no other column. The merged price column is not kept
  in the rows of the plan.
\<close>

record forecast_frame =
  has_price :: bool
  forecast_rows :: "(timestamp \<times> real option) list"

text \<open>
  \<^verbatim>\<open>cop.merge(price_forecast, left_index=True, right_index=True, how='left')\<close>: every
  hour of the plan, in order, once for each forecast row that carries its label, and
  once with NaN when no forecast row does.
\<close>

definition merge_left ::
  "timestamp list \<Rightarrow> (timestamp \<times> real option) list \<Rightarrow> (timestamp \<times> real option) list" where
  "merge_left hours rows =
     concat (map (\<lambda>hour. case filter (\<lambda>(k, p). k = hour) rows of
                            [] \<Rightarrow> [(hour, None)]
                          | matches \<Rightarrow> matches) hours)"

text \<open>The threshold chain; NaN fails every comparison and ends in the last branch.\<close>

definition price_choice :: "BESSParameters \<Rightarrow> real option \<Rightarrow> op_mode \<times> real" where
  "price_choice b cell =
     (case cell of
        None \<Rightarrow> (hold, 0)
      | Some price \<Rightarrow>
          if price > 80 then (discharge, bess_hsl b)
          else if price < 25 then (charge, bess_lsl b)
          else if price > 50 then (discharge, bess_hsl b * 0.5)
          else (hold, 0))"

definition price_row :: "BESSParameters \<Rightarrow> real option \<Rightarrow> timestamp \<Rightarrow> plan_hour" where
  "price_row b cell hour =
     (let (m, t) = price_choice b cell
      in \<lparr>idx = hour, hour_ending = Some hour, col_resource_name = Some (resource_name b),
          status = ON, hsl = bess_hsl b, lsl = bess_lsl b, soc_begin = 0,
          mode = m, target_mw = t, soc_min = 0, soc_max = 0\<rparr>)"

text \<open>
  The loop over the index of the merged frame. With a \<^verbatim>\<open>price\<close> column,
  \<^verbatim>\<open>cop.loc[hour, 'price']\<close> for a label that the merge has repeated is a Series and
  \<^verbatim>\<open>if price > 80\<close> raises. With no \<^verbatim>\<open>price\<close> column the price is 50 for every row.
\<close>

fun price_loop ::
  "BESSParameters \<Rightarrow> bool \<Rightarrow> (timestamp \<times> real option) list \<Rightarrow> (timestamp \<times> real option) list
     \<Rightarrow> py_error + plan_hour list" where
  "price_loop b priced merged [] = Inr []"
| "price_loop b priced merged ((hour, cell) # rest) =
     (if priced \<and> length (filter (\<lambda>(k, p). k = hour) merged) > 1 then Inl ValueError
      else case price_loop b priced merged rest of
             Inl e \<Rightarrow> Inl e
           | Inr rows \<Rightarrow> Inr (price_row b (if priced then cell else Some 50) hour # rows))"

definition optimize_for_prices ::
  "BESSParameters \<Rightarrow> forecast_frame \<Rightarrow> timestamp list \<Rightarrow> py_error + plan_hour list" where
  "optimize_for_prices b price_forecast hours =
     (let merged = merge_left hours (forecast_rows price_forecast)
      in case price_loop b (has_price price_forecast) merged merged of
           Inl e \<Rightarrow> Inl e
         | Inr rows \<Rightarrow> Inr (calculate_soc_trajectory b None rows))"

subsection \<open>Feasibility repair\<close>

definition max_discharge_of :: "BESSParameters \<Rightarrow> real \<Rightarrow> real" where
  "max_discharge_of b current_soc = min (bess_hsl b) (current_soc - min_soc b)"

definition max_charge_of :: "BESSParameters \<Rightarrow> real \<Rightarrow> real" where
  "max_charge_of b current_soc = min (\<bar>bess_lsl b\<bar> * efficiency b) (max_soc b - current_soc)"

text \<open>
  The loop of \<^verbatim>\<open>_ensure_soc_feasibility\<close> over \<^verbatim>\<open>range(len(cop) - 1)\<close>: iteration \<open>i\<close>
  reads the (possibly already rewritten) SOC of row \<open>i\<close>, may rewrite the SOC of row
  \<open>i + 1\<close> and the target of row \<open>i\<close>, and never touches a row below \<open>i\<close> again.
\<close>

fun feasibility_loop :: "BESSParameters \<Rightarrow> 'a plan_hour_scheme list \<Rightarrow> 'a plan_hour_scheme list" where
  "feasibility_loop b (cur # nxt # rest) =
     (let current_soc = soc_begin cur;
          next_soc = soc_begin nxt;
          max_discharge = max_discharge_of b current_soc;
          max_charge = max_charge_of b current_soc;
          soc_change = next_soc - current_soc
      in if soc_change > max_charge then
           cur\<lparr>target_mw := bess_lsl b\<rparr>
             # feasibility_loop b (nxt\<lparr>soc_begin := current_soc + max_charge\<rparr> # rest)
         else if soc_change < - max_discharge then
           cur\<lparr>target_mw := bess_hsl b\<rparr>
             # feasibility_loop b (nxt\<lparr>soc_begin := current_soc - max_discharge\<rparr> # rest)
         else cur # feasibility_loop b (nxt # rest))"
| "feasibility_loop b rows = rows"

text \<open>
  \<^verbatim>\<open>Series.clip(lower, upper)\<close> of pandas with two scalar bounds first orders them
  (\<^verbatim>\<open>lower, upper = min(lower, upper), max(lower, upper)\<close>) and then moves every value
  below the lower bound up to it and every value above the upper bound down to it.
\<close>

definition clip :: "real \<Rightarrow> real \<Rightarrow> real \<Rightarrow> real" where
  "clip lower upper x =
     (let lo = min lower upper; hi = max lower upper
      in if x < lo then lo else if x > hi then hi else x)"

definition ensure_soc_feasibility ::
  "BESSParameters \<Rightarrow> 'a plan_hour_scheme list \<Rightarrow> 'a plan_hour_scheme list" where
  "ensure_soc_feasibility b cop =
     map (\<lambda>r. r\<lparr>soc_begin := clip (min_soc b) (max_soc b) (soc_begin r)\<rparr>)
       (feasibility_loop b cop)"

subsection \<open>Ancillary-service commitments\<close>

text \<open>
  The commitments frame: the names of its columns and its rows in order, each an index
  label with the cells of \<^verbatim>\<open>regulation\<close>, \<^verbatim>\<open>rrs\<close> and \<^verbatim>\<open>ecrs\<close>. The cell of a column that
  the frame does not have is never read.
\<close>

record as_row =
  regulation :: real
  rrs :: real
  ecrs :: real

record as_frame =
  as_columns :: "string list"
  as_rows :: "(timestamp \<times> as_row) list"

text \<open>
  \<^verbatim>\<open>as_commitments.loc[hour, column]\<close> for a label of the frame's index: a scalar when the
  label occurs once, a Series when it is repeated.
\<close>

datatype loc_value = Scalar (scalar: real) | Series

definition as_loc :: "as_frame \<Rightarrow> timestamp \<Rightarrow> (as_row \<Rightarrow> real) \<Rightarrow> loc_value" where
  "as_loc as_commitments hour column =
     (case filter (\<lambda>(k, c). k = hour) (as_rows as_commitments) of
        [(k, c)] \<Rightarrow> Scalar (column c)
      | _ \<Rightarrow> Series)"

text \<open>\<^verbatim>\<open>cop.loc[hour, column] = value\<close> writes every row that carries the label.\<close>

definition loc_update ::
  "timestamp \<Rightarrow> ('a plan_hour_scheme \<Rightarrow> 'a plan_hour_scheme) \<Rightarrow> 'a plan_hour_scheme list
     \<Rightarrow> 'a plan_hour_scheme list" where
  "loc_update hour f cop = map (\<lambda>r. if idx r = hour then f r else r) cop"

text \<open>
  One iteration of the loop of \<^verbatim>\<open>_apply_as_commitments\<close>. A column that the frame does
  not have reads as the scalar 0. Each test \<^verbatim>\<open>x > 0\<close> of the \<^verbatim>\<open>if\<close> chain raises
  \<^verbatim>\<open>ValueError\<close> when \<open>x\<close> is a Series, and is reached only when the tests before it
  were false. In the RRS and ECRS branches \<^verbatim>\<open>max(cop.loc[hour, 'soc_min'], x)\<close> raises
  when the label is repeated in the plan.
\<close>

definition apply_as_hour ::
  "as_frame \<Rightarrow> 'a plan_hour_scheme list \<Rightarrow> timestamp \<Rightarrow> py_error + 'a plan_hour_scheme list" where
  "apply_as_hour as_commitments cop hour =
     (if hour \<notin> set (map idx cop) then Inr cop
      else
        (let reg_mw = (if ''regulation'' \<in> set (as_columns as_commitments)
                       then as_loc as_commitments hour regulation else Scalar 0);
             rrs_mw = (if ''rrs'' \<in> set (as_columns as_commitments)
                       then as_loc as_commitments hour rrs else Scalar 0);
             ecrs_mw = (if ''ecrs'' \<in> set (as_columns as_commitments)
                        then as_loc as_commitments hour ecrs else Scalar 0)
         in if reg_mw = Series then Inl ValueError
            else if scalar reg_mw > 0 then
              Inr (loc_update hour (\<lambda>r. r\<lparr>status := ONREG, target_mw := 0\<rparr>) cop)
            else if rrs_mw = Series then Inl ValueError
            else if scalar rrs_mw > 0 then
              (if length (filter (\<lambda>r. idx r = hour) cop) > 1 then Inl ValueError
               else Inr (loc_update hour
                      (\<lambda>r. r\<lparr>status := ONRR, soc_min := max (soc_min r) (scalar rrs_mw)\<rparr>) cop))
            else if ecrs_mw = Series then Inl ValueError
            else if scalar ecrs_mw > 0 then
              (if length (filter (\<lambda>r. idx r = hour) cop) > 1 then Inl ValueError
               else Inr (loc_update hour
                      (\<lambda>r. r\<lparr>status := ONECRS,
                              soc_min := max (soc_min r) (scalar ecrs_mw * 2)\<rparr>) cop))
            else Inr cop))"

fun apply_as_loop ::
  "as_frame \<Rightarrow> timestamp list \<Rightarrow> 'a plan_hour_scheme list \<Rightarrow> py_error + 'a plan_hour_scheme list" where
  "apply_as_loop as_commitments [] cop = Inr cop"
| "apply_as_loop as_commitments (hour # hours) cop =
     (case apply_as_hour as_commitments cop hour of
        Inl e \<Rightarrow> Inl e
      | Inr cop' \<Rightarrow> apply_as_loop as_commitments hours cop')"

definition apply_as_commitments ::
  "'a plan_hour_scheme list \<Rightarrow> as_frame \<Rightarrow> py_error + 'a plan_hour_scheme list" where
  "apply_as_commitments cop as_commitments =
     apply_as_loop as_commitments (map fst (as_rows as_commitments)) cop"

subsection \<open>Remaining plan fields and the generator's entry point\<close>

definition add_cop_fields :: "BESSParameters \<Rightarrow> plan_hour list \<Rightarrow> cop_hour list" where
  "add_cop_fields b cop =
     map (\<lambda>r. \<lparr>idx = idx r, hour_ending = hour_ending r,
               col_resource_name = col_resource_name r, status = status r,
               hsl = hsl r, lsl = lsl r, soc_begin = soc_begin r, mode = mode r,
               target_mw = target_mw r, soc_min = soc_min r, soc_max = soc_max r,
               normal_ramp_up = ramp_rate_up b,
               normal_ramp_down = ramp_rate_down b,
               emergency_ramp_up = ramp_rate_up b * 1.5,
               emergency_ramp_down = ramp_rate_down b * 1.5,
               hel = hsl r, lel = lsl r,
               col_aux_load = aux_load b,
               resource_type = ''ESR'',
               fuel_type = ''BATTERY''\<rparr>) cop"

text \<open>
  \<^verbatim>\<open>generate_cop\<close>: the hourly index of \<open>days * 24\<close> labels from \<open>start_date\<close>, the base
  plan, the commitments when given, the feasibility repair, the remaining fields, in
  the order of the source. The method also stores the plan in \<^verbatim>\<open>self.cop_data\<close>, which
  nothing reads.
\<close>

definition generate_cop ::
  "BESSParameters \<Rightarrow> timestamp \<Rightarrow> nat \<Rightarrow> forecast_frame option \<Rightarrow> as_frame option
     \<Rightarrow> py_error + cop_hour list" where
  "generate_cop b start_date days price_forecast as_commitments =
     (let hours = [start_date ..< start_date + days * 24];
          planned = (case price_forecast of
                       Some forecast \<Rightarrow> optimize_for_prices b forecast hours
                     | None \<Rightarrow> Inr (generate_default_plan b hours))
      in case planned of
           Inl e \<Rightarrow> Inl e
         | Inr cop \<Rightarrow>
             (case (case as_commitments of
                      Some commitments \<Rightarrow> apply_as_commitments cop commitments
                    | None \<Rightarrow> Inr cop) of
                Inl e \<Rightarrow> Inl e
              | Inr cop' \<Rightarrow> Inr (add_cop_fields b (ensure_soc_feasibility b cop'))))"

section \<open>COPValidator\<close>

datatype severity_level = ERROR | WARNING

datatype finding_type =
  SOC_INFEASIBLE_CHARGE | SOC_INFEASIBLE_DISCHARGE | SOC_BELOW_MIN | SOC_ABOVE_MAX
| SOC_MIN_INCONSISTENT | SOC_MAX_INCONSISTENT | RAMP_RATE_EXCEEDED
| INSUFFICIENT_SOC_FOR_RRS | INSUFFICIENT_SOC_FOR_ECRS
| MISSING_FIELDS | NULL_VALUES | INSUFFICIENT_HORIZON

text \<open>
  The \<^verbatim>\<open>hour\<close> entry of a finding is a position where the check loops over
  \<^verbatim>\<open>range(len(cop) - 1)\<close> and an index label where it loops over \<^verbatim>\<open>cop.iterrows()\<close>;
  three kinds of finding have no such entry. The formatted \<^verbatim>\<open>message\<close> text is not
  modelled.
\<close>

datatype hour_ref = Position nat | Label timestamp

record finding =
  hour :: "hour_ref option"
  ftype :: finding_type
  severity :: severity_level

record COPValidator =
  bess :: BESSParameters
  validation_errors :: "finding list"
  validation_warnings :: "finding list"

definition COPValidator_init :: "BESSParameters \<Rightarrow> COPValidator" where
  "COPValidator_init bess_params =
     \<lparr>bess = bess_params, validation_errors = [], validation_warnings = []\<rparr>"

definition append_error :: "COPValidator \<Rightarrow> finding \<Rightarrow> COPValidator" where
  "append_error v f = v\<lparr>validation_errors := validation_errors v @ [f]\<rparr>"

definition append_warning :: "COPValidator \<Rightarrow> finding \<Rightarrow> COPValidator" where
  "append_warning v f = v\<lparr>validation_warnings := validation_warnings v @ [f]\<rparr>"

subsection \<open>The six checks\<close>

text \<open>
  The bounds \<^verbatim>\<open>_validate_soc_feasibility\<close> computes for a row: from the row's own
  \<^verbatim>\<open>hsl\<close>, \<^verbatim>\<open>lsl\<close>, \<^verbatim>\<open>soc_min\<close> and \<^verbatim>\<open>soc_max\<close> cells and the profile's efficiency.
\<close>

definition row_max_discharge :: "cop_hour \<Rightarrow> real" where
  "row_max_discharge current = min (hsl current) (soc_begin current - soc_min current)"

definition row_max_charge :: "BESSParameters \<Rightarrow> cop_hour \<Rightarrow> real" where
  "row_max_charge b current =
     min (\<bar>lsl current\<bar> * efficiency b) (soc_max current - soc_begin current)"

text \<open>The body of the loop for the pair of rows at positions \<open>i\<close> and \<open>i + 1\<close>.\<close>

definition soc_feasibility_pair :: "COPValidator \<Rightarrow> nat \<Rightarrow> cop_hour \<Rightarrow> cop_hour \<Rightarrow> COPValidator" where
  "soc_feasibility_pair v i current next_hour =
     (let max_discharge = row_max_discharge current;
          max_charge = row_max_charge (bess v) current;
          soc_change = soc_begin next_hour - soc_begin current
      in if soc_change > max_charge + 0.01 then
           append_error v \<lparr>hour = Some (Position i), ftype = SOC_INFEASIBLE_CHARGE,
                           severity = ERROR\<rparr>
         else if soc_change < - (max_discharge + 0.01) then
           append_error v \<lparr>hour = Some (Position i), ftype = SOC_INFEASIBLE_DISCHARGE,
                           severity = ERROR\<rparr>
         else v)"

fun soc_feasibility_loop :: "COPValidator \<Rightarrow> nat \<Rightarrow> cop_hour list \<Rightarrow> COPValidator" where
  "soc_feasibility_loop v i (current # next_hour # rest) =
     soc_feasibility_loop (soc_feasibility_pair v i current next_hour) (Suc i) (next_hour # rest)"
| "soc_feasibility_loop v i rows = v"

definition validate_soc_feasibility :: "COPValidator \<Rightarrow> cop_hour list \<Rightarrow> COPValidator" where
  "validate_soc_feasibility v cop = soc_feasibility_loop v 0 cop"

definition soc_bounds_row :: "COPValidator \<Rightarrow> cop_hour \<Rightarrow> COPValidator" where
  "soc_bounds_row v row =
     (let i = idx row;
          v1 = (if soc_begin row < min_soc (bess v) then
                  append_error v \<lparr>hour = Some (Label i), ftype = SOC_BELOW_MIN,
                                  severity = ERROR\<rparr>
                else if soc_begin row > max_soc (bess v) then
                  append_error v \<lparr>hour = Some (Label i), ftype = SOC_ABOVE_MAX,
                                  severity = ERROR\<rparr>
                else v);
          v2 = (if soc_min row > soc_begin row then
                  append_warning v1 \<lparr>hour = Some (Label i), ftype = SOC_MIN_INCONSISTENT,
                                     severity = WARNING\<rparr>
                else v1)
      in if soc_max row < soc_begin row then
           append_warning v2 \<lparr>hour = Some (Label i), ftype = SOC_MAX_INCONSISTENT,
                              severity = WARNING\<rparr>
         else v2)"

definition validate_soc_bounds :: "COPValidator \<Rightarrow> cop_hour list \<Rightarrow> COPValidator" where
  "validate_soc_bounds v cop = foldl soc_bounds_row v cop"

text \<open>
  A frame of this type always has the \<^verbatim>\<open>target_mw\<close> column, so the test
  \<^verbatim>\<open>'target_mw' in cop.columns\<close> of \<^verbatim>\<open>_validate_ramp_rates\<close> succeeds.
\<close>

definition ramp_rates_pair :: "COPValidator \<Rightarrow> nat \<Rightarrow> cop_hour \<Rightarrow> cop_hour \<Rightarrow> COPValidator" where
  "ramp_rates_pair v i current next_hour =
     (if status current \<noteq> status next_hour then v
      else
        (let mw_change = \<bar>target_mw next_hour - target_mw current\<bar>;
             max_ramp = max (normal_ramp_up current) (normal_ramp_down current) * 60
         in if mw_change > max_ramp * 1.05 then
              append_warning v \<lparr>hour = Some (Position i), ftype = RAMP_RATE_EXCEEDED,
                                severity = WARNING\<rparr>
            else v))"

fun ramp_rates_loop :: "COPValidator \<Rightarrow> nat \<Rightarrow> cop_hour list \<Rightarrow> COPValidator" where
  "ramp_rates_loop v i (current # next_hour # rest) =
     ramp_rates_loop (ramp_rates_pair v i current next_hour) (Suc i) (next_hour # rest)"
| "ramp_rates_loop v i rows = v"

definition validate_ramp_rates :: "COPValidator \<Rightarrow> cop_hour list \<Rightarrow> COPValidator" where
  "validate_ramp_rates v cop = ramp_rates_loop v 0 cop"

definition as_requirements_row :: "COPValidator \<Rightarrow> cop_hour \<Rightarrow> COPValidator" where
  "as_requirements_row v row =
     (let i = idx row
      in if status row = ONRR then
           (let required_soc = hsl row * 1.0
            in if soc_begin row < required_soc then
                 append_warning v \<lparr>hour = Some (Label i), ftype = INSUFFICIENT_SOC_FOR_RRS,
                                    severity = WARNING\<rparr>
               else v)
         else if status row = ONECRS then
           (let required_soc = hsl row * 2.0
            in if soc_begin row < required_soc then
                 append_warning v \<lparr>hour = Some (Label i), ftype = INSUFFICIENT_SOC_FOR_ECRS,
                                    severity = WARNING\<rparr>
               else v)
         else v)"

definition validate_as_requirements :: "COPValidator \<Rightarrow> cop_hour list \<Rightarrow> COPValidator" where
  "validate_as_requirements v cop = foldl as_requirements_row v cop"

text \<open>
  The columns of a frame of rows of type \<^typ>\<open>cop_hour\<close>, and which of them can hold a
  null cell in this model (numbers and the status are never null here).
\<close>

definition cop_columns :: "string list" where
  "cop_columns =
     [''hour_ending'', ''resource_name'', ''status'', ''hsl'', ''lsl'', ''soc_begin'',
      ''mode'', ''target_mw'', ''soc_min'', ''soc_max'', ''normal_ramp_up'',
      ''normal_ramp_down'', ''emergency_ramp_up'', ''emergency_ramp_down'', ''hel'',
      ''lel'', ''aux_load'', ''resource_type'', ''fuel_type'']"

definition required_fields :: "string list" where
  "required_fields =
     [''hour_ending'', ''resource_name'', ''status'', ''hsl'', ''lsl'', ''soc_begin'',
      ''soc_min'', ''soc_max'', ''normal_ramp_up'', ''normal_ramp_down'']"

definition isnull_any :: "cop_hour list \<Rightarrow> string \<Rightarrow> bool" where
  "isnull_any cop field =
     (if field = ''hour_ending'' then list_ex (\<lambda>r. hour_ending r = None) cop
      else if field = ''resource_name'' then list_ex (\<lambda>r. col_resource_name r = None) cop
      else False)"

definition null_values_field :: "cop_hour list \<Rightarrow> COPValidator \<Rightarrow> string \<Rightarrow> COPValidator" where
  "null_values_field cop v field =
     (if field \<in> set cop_columns \<and> isnull_any cop field then
        append_error v \<lparr>hour = None, ftype = NULL_VALUES, severity = ERROR\<rparr>
      else v)"

definition validate_data_completeness :: "COPValidator \<Rightarrow> cop_hour list \<Rightarrow> COPValidator" where
  "validate_data_completeness v cop =
     (let missing_fields = filter (\<lambda>f. f \<notin> set cop_columns) required_fields;
          v' = (if missing_fields \<noteq> [] then
                  append_error v \<lparr>hour = None, ftype = MISSING_FIELDS, severity = ERROR\<rparr>
                else v)
      in foldl (null_values_field cop) v' required_fields)"

definition validate_timeline_requirements :: "COPValidator \<Rightarrow> cop_hour list \<Rightarrow> COPValidator" where
  "validate_timeline_requirements v cop =
     (if length cop < 168 then
        append_warning v \<lparr>hour = None, ftype = INSUFFICIENT_HORIZON, severity = WARNING\<rparr>
      else v)"

subsection \<open>The report\<close>

datatype validation_summary = PASSED | FAILED nat "finding_type set"

definition generate_validation_summary :: "COPValidator \<Rightarrow> validation_summary" where
  "generate_validation_summary v =
     (if length (validation_errors v) = 0 then PASSED
      else FAILED (length (validation_errors v)) (set (map ftype (validation_errors v))))"

record validation_results =
  valid :: bool
  errors :: "finding list"
  warnings :: "finding list"
  error_count :: nat
  warning_count :: nat
  summary :: validation_summary

text \<open>
  \<^verbatim>\<open>validate\<close> is a method of an object with two list fields: it takes the validator as
  it is before the call and returns the report with the validator as it is after.
\<close>

definition validate :: "COPValidator \<Rightarrow> cop_hour list \<Rightarrow> validation_results \<times> COPValidator" where
  "validate self cop =
     (let v0 = self\<lparr>validation_errors := [], validation_warnings := []\<rparr>;
          v1 = validate_soc_feasibility v0 cop;
          v2 = validate_soc_bounds v1 cop;
          v3 = validate_ramp_rates v2 cop;
          v4 = validate_as_requirements v3 cop;
          v5 = validate_data_completeness v4 cop;
          v6 = validate_timeline_requirements v5 cop;
          results = \<lparr>valid = (length (validation_errors v6) = 0),
                     errors = validation_errors v6,
                     warnings = validation_warnings v6,
                     error_count = length (validation_errors v6),
                     warning_count = length (validation_warnings v6),
                     summary = generate_validation_summary v6\<rparr>
      in (results, v6))"

section \<open>Notions used in the statements\<close>

text \<open>
  A profile is physical when its power and efficiency are not negative and its SOC
  bounds are ordered. The data class itself checks nothing.
\<close>

definition physical :: "BESSParameters \<Rightarrow> bool" where
  "physical b \<longleftrightarrow> 0 \<le> capacity_mw b \<and> 0 \<le> efficiency b \<and> min_soc b \<le> max_soc b"

text \<open>
  A transition from SOC \<open>u\<close> to SOC \<open>v\<close> that the repair loop leaves alone, and one
  that it has either left alone or just written.
\<close>

definition feasible_step :: "BESSParameters \<Rightarrow> real \<Rightarrow> real \<Rightarrow> bool" where
  "feasible_step b u v \<longleftrightarrow> \<not> v - u > max_charge_of b u \<and> \<not> v - u < - max_discharge_of b u"

definition repaired_step :: "BESSParameters \<Rightarrow> real \<Rightarrow> real \<Rightarrow> bool" where
  "repaired_step b u v \<longleftrightarrow>
     feasible_step b u v \<or> v = u + max_charge_of b u \<or> v = u - max_discharge_of b u"

text \<open>A row with the two cells the repair may write blanked out.\<close>

definition erase_repaired :: "'a plan_hour_scheme \<Rightarrow> 'a plan_hour_scheme" where
  "erase_repaired r = r\<lparr>soc_begin := 0, target_mw := 0\<rparr>"

text \<open>Concrete inputs: profiles and rows.\<close>

definition small_profile :: BESSParameters where
  "small_profile =
     \<lparr>resource_name = ''BESS_10MW'', capacity_mw = 10, capacity_mwh = 20, efficiency = 1,
      ramp_rate_up = 5, ramp_rate_down = 5, min_soc = 0, max_soc = 20, aux_load = 0\<rparr>"

definition negative_efficiency_profile :: BESSParameters where
  "negative_efficiency_profile =
     \<lparr>resource_name = ''B'', capacity_mw = 1, capacity_mwh = 10, efficiency = - 2,
      ramp_rate_up = 1, ramp_rate_down = 1, min_soc = 0, max_soc = 10, aux_load = 0\<rparr>"

definition plain_row :: "timestamp \<Rightarrow> real \<Rightarrow> plan_hour" where
  "plain_row t s =
     \<lparr>idx = t, hour_ending = Some t, col_resource_name = Some ''B'', status = ON,
      hsl = 1, lsl = - 1, soc_begin = s, mode = hold, target_mw = 0,
      soc_min = 0, soc_max = 10\<rparr>"

definition cop_row :: "timestamp \<Rightarrow> real \<Rightarrow> real \<Rightarrow> real \<Rightarrow> cop_hour" where
  "cop_row t s smin smax =
     \<lparr>idx = t, hour_ending = Some t, col_resource_name = Some ''BESS_10MW'', status = ON,
      hsl = 10, lsl = - 10, soc_begin = s, mode = hold, target_mw = 0,
      soc_min = smin, soc_max = smax,
      normal_ramp_up = 5, normal_ramp_down = 5, emergency_ramp_up = 7.5,
      emergency_ramp_down = 7.5, hel = 10, lel = - 10, col_aux_load = 0,
      resource_type = ''ESR'', fuel_type = ''BATTERY''\<rparr>"

definition warning_types :: "finding_type set" where
  "warning_types =
     {RAMP_RATE_EXCEEDED, INSUFFICIENT_SOC_FOR_RRS, INSUFFICIENT_SOC_FOR_ECRS,
      SOC_MIN_INCONSISTENT, SOC_MAX_INCONSISTENT, INSUFFICIENT_HORIZON}"

definition is_error_finding :: "finding \<Rightarrow> bool" where
  "is_error_finding f \<longleftrightarrow> severity f = ERROR \<and> ftype f \<notin> warning_types"

definition is_warning_finding :: "finding \<Rightarrow> bool" where
  "is_warning_finding f \<longleftrightarrow> severity f = WARNING \<and> ftype f \<in> warning_types"

definition findings_sorted :: "COPValidator \<Rightarrow> bool" where
  "findings_sorted v \<longleftrightarrow>
     list_all is_error_finding (validation_errors v)
     \<and> list_all is_warning_finding (validation_warnings v)"

definition below_min_row :: cop_hour where
  "below_min_row = cop_row 0 (- 1) 0 10"

definition charge_finding :: "nat \<Rightarrow> finding" where
  "charge_finding k = \<lparr>hour = Some (Position k), ftype = SOC_INFEASIBLE_CHARGE, severity = ERROR\<rparr>"

definition discharge_finding :: "nat \<Rightarrow> finding" where
  "discharge_finding k = \<lparr>hour = Some (Position k), ftype = SOC_INFEASIBLE_DISCHARGE, severity = ERROR\<rparr>"

text \<open>
  Following the spec's words (section 4.2): the overlay of one hour's commitments on one
  plan hour, first match wins, and its application to every plan hour whose timestamp is
  keyed in the commitments.
\<close>

definition overlay_spec :: "as_row \<Rightarrow> 'a plan_hour_scheme \<Rightarrow> 'a plan_hour_scheme" where
  "overlay_spec c r =
     (if regulation c > 0 then r\<lparr>status := ONREG, target_mw := 0\<rparr>
      else if rrs c > 0 then r\<lparr>status := ONRR, soc_min := max (soc_min r) (rrs c)\<rparr>
      else if ecrs c > 0 then r\<lparr>status := ONECRS, soc_min := max (soc_min r) (ecrs c * 2)\<rparr>
      else r)"

definition apply_commitments_spec ::
  "(timestamp \<times> as_row) list \<Rightarrow> 'a plan_hour_scheme list \<Rightarrow> 'a plan_hour_scheme list" where
  "apply_commitments_spec commitments cop =
     map (\<lambda>r. case map_of commitments (idx r) of None \<Rightarrow> r | Some c \<Rightarrow> overlay_spec c r) cop"

text \<open>
  The commitments of a frame as the source reads them: the three amounts of every row,
  with 0 for a column that the frame does not have.
\<close>

definition column_or_zero :: "as_frame \<Rightarrow> string \<Rightarrow> real \<Rightarrow> real" where
  "column_or_zero a name x = (if name \<in> set (as_columns a) then x else 0)"

definition as_read :: "as_frame \<Rightarrow> (timestamp \<times> as_row) list" where
  "as_read a =
     map (\<lambda>(k, c). (k, \<lparr>regulation = column_or_zero a ''regulation'' (regulation c),
                         rrs = column_or_zero a ''rrs'' (rrs c),
                         ecrs = column_or_zero a ''ecrs'' (ecrs c)\<rparr>)) (as_rows a)"

text \<open>The plan \<^verbatim>\<open>generate_cop\<close> builds before the overlay and the repair.\<close>

definition base_plan ::
  "BESSParameters \<Rightarrow> timestamp \<Rightarrow> nat \<Rightarrow> forecast_frame option \<Rightarrow> py_error + plan_hour list" where
  "base_plan b start_date days price_forecast =
     (case price_forecast of
        Some forecast \<Rightarrow> optimize_for_prices b forecast [start_date ..< start_date + days * 24]
      | None \<Rightarrow> Inr (generate_default_plan b [start_date ..< start_date + days * 24]))"

text \<open>Two plans, or two failures, that agree on the index labels of the plan.\<close>

definition same_labels ::
  "py_error + plan_hour list \<Rightarrow> py_error + plan_hour list \<Rightarrow> bool" where
  "same_labels x y = rel_sum (=) (\<lambda>cop cop'. map idx cop = map idx cop') x y"

definition tight_profile :: BESSParameters where
  "tight_profile =
     \<lparr>resource_name = ''T'', capacity_mw = 10, capacity_mwh = 10, efficiency = 1,
      ramp_rate_up = 5, ramp_rate_down = 5, min_soc = 0, max_soc = 10, aux_load = 0\<rparr>"

definition invalid_profile :: BESSParameters where
  "invalid_profile =
     \<lparr>resource_name = ''X'', capacity_mw = 0, capacity_mwh = 0, efficiency = 1,
      ramp_rate_up = 5, ramp_rate_down = 5, min_soc = 10, max_soc = 10, aux_load = 0\<rparr>"

definition regulation_at_midnight :: as_frame where
  "regulation_at_midnight =
     \<lparr>as_columns = [''regulation'', ''rrs'', ''ecrs''],
      as_rows = [(0, \<lparr>regulation = 5, rrs = 0, ecrs = 0\<rparr>)]\<rparr>"

definition two_prices :: forecast_frame where
  "two_prices = \<lparr>has_price = True, forecast_rows = [(0, Some 90), (1, Some 10)]\<rparr>"

text \<open>The profile of the module's own example run.\<close>

definition demo_profile :: BESSParameters where
  "demo_profile =
     \<lparr>resource_name = ''BESS_WEST_100MW'', capacity_mw = 100, capacity_mwh = 200,
      efficiency = 0.86, ramp_rate_up = 50, ramp_rate_down = 50, min_soc = 0, max_soc = 200,
      aux_load = 2\<rparr>"

definition three_products :: as_frame where
  "three_products =
     \<lparr>as_columns = [''regulation'', ''rrs'', ''ecrs''],
      as_rows = [(0, \<lparr>regulation = 5, rrs = 3, ecrs = 1\<rparr>),
                 (1, \<lparr>regulation = 0, rrs = 3, ecrs = 1\<rparr>),
                 (2, \<lparr>regulation = 0, rrs = 0, ecrs = 1\<rparr>)]\<rparr>"

section \<open>Properties of the feasibility repair\<close>

text \<open>
  C6. Boundary repair on the profile with capacity 10 MW, 20 MWh, efficiency 1 and SOC
  bounds 0 and 20: on three hours whose SOC is 10, 19, 28 the repair returns the SOC
  sequence 10, 19, 20, sets the target of the second hour to the low sustained limit -10,
  and leaves the first hour as it was. Every other cell of the three rows and every other
  field of the profile is arbitrary.
\<close>

theorem boundary_repair_concrete:
  "ensure_soc_feasibility
     (b\<lparr>capacity_mw := 10, capacity_mwh := 20, efficiency := 1, min_soc := 0, max_soc := 20\<rparr>)
     [r0\<lparr>soc_begin := 10\<rparr>, r1\<lparr>soc_begin := 19\<rparr>, r2\<lparr>soc_begin := 28\<rparr>]
   = [r0\<lparr>soc_begin := 10\<rparr>, r1\<lparr>soc_begin := 19, target_mw := - 10\<rparr>, r2\<lparr>soc_begin := 20\<rparr>]"
  by (simp add: ensure_soc_feasibility_def max_charge_of_def max_discharge_of_def
        bess_lsl_def bess_hsl_def clip_def Let_def)

subsection \<open>What the repair leaves alone\<close>

lemma feasibility_loop_erase:
  "map erase_repaired (feasibility_loop b cop) = map erase_repaired cop"
  by (induction b cop rule: feasibility_loop.induct)
     (simp_all add: Let_def erase_repaired_def)

lemma feasibility_loop_length: "length (feasibility_loop b cop) = length cop"
  using arg_cong [OF feasibility_loop_erase, of length b cop] by simp

lemma feasibility_loop_head:
  "map soc_begin (take 1 (feasibility_loop b cop)) = map soc_begin (take 1 cop)"
  by (induction b cop rule: feasibility_loop.induct) (simp_all add: Let_def)

lemma ensure_erase:
  "map erase_repaired (ensure_soc_feasibility b cop) = map erase_repaired cop"
proof -
  have "map erase_repaired (ensure_soc_feasibility b cop)
        = map erase_repaired (feasibility_loop b cop)"
    by (simp add: ensure_soc_feasibility_def erase_repaired_def)
  then show ?thesis by (simp add: feasibility_loop_erase)
qed

lemma ensure_length: "length (ensure_soc_feasibility b cop) = length cop"
  using arg_cong [OF ensure_erase, of length b cop] by simp

lemma erase_eq_iff:
  "erase_repaired r' = erase_repaired r
   \<longleftrightarrow> r' = r\<lparr>soc_begin := soc_begin r', target_mw := target_mw r'\<rparr>"
  unfolding erase_repaired_def
  by (cases r, cases r') auto

lemma map_eq_list_all2: "map f xs = map f ys \<longleftrightarrow> list_all2 (\<lambda>x y. f x = f y) xs ys"
  by (induction xs arbitrary: ys) (auto simp: list_all2_Cons1 map_eq_Cons_conv)

text \<open>
  C10. The repair returns as many rows as it is given, in the same order, and each
  returned row is the given row with at most its \<^verbatim>\<open>soc_begin\<close> and \<^verbatim>\<open>target_mw\<close> cells
  replaced: index, \<^verbatim>\<open>hour_ending\<close>, \<^verbatim>\<open>status\<close>, \<^verbatim>\<open>hsl\<close>, \<^verbatim>\<open>lsl\<close>, \<^verbatim>\<open>soc_min\<close>,
  \<^verbatim>\<open>soc_max\<close>, \<^verbatim>\<open>mode\<close> and every further column are the same. The SOC of the first
  hour is the given one clipped into the profile's SOC bounds.
\<close>

theorem repair_frame:
  "list_all2 (\<lambda>r r'. r' = r\<lparr>soc_begin := soc_begin r', target_mw := target_mw r'\<rparr>)
     cop (ensure_soc_feasibility b cop)
   \<and> length (ensure_soc_feasibility b cop) = length cop
   \<and> map idx (ensure_soc_feasibility b cop) = map idx cop
   \<and> map hour_ending (ensure_soc_feasibility b cop) = map hour_ending cop
   \<and> map status (ensure_soc_feasibility b cop) = map status cop
   \<and> map hsl (ensure_soc_feasibility b cop) = map hsl cop
   \<and> map lsl (ensure_soc_feasibility b cop) = map lsl cop
   \<and> map soc_min (ensure_soc_feasibility b cop) = map soc_min cop
   \<and> map soc_max (ensure_soc_feasibility b cop) = map soc_max cop
   \<and> map mode (ensure_soc_feasibility b cop) = map mode cop
   \<and> map soc_begin (take 1 (ensure_soc_feasibility b cop))
       = map (\<lambda>r. clip (min_soc b) (max_soc b) (soc_begin r)) (take 1 cop)"
proof -
  let ?E = "ensure_soc_feasibility b cop"
  have e: "map erase_repaired ?E = map erase_repaired cop" by (rule ensure_erase)
  have frame: "list_all2 (\<lambda>r r'. r' = r\<lparr>soc_begin := soc_begin r', target_mw := target_mw r'\<rparr>)
                 cop ?E"
    using e unfolding map_eq_list_all2
    by (simp add: erase_eq_iff list_all2_conv_all_nth)
  have f: "map (g \<circ> erase_repaired) ?E = map (g \<circ> erase_repaired) cop"
    for g :: "'a plan_hour_scheme \<Rightarrow> 'c"
    using arg_cong [OF e, of "map g"] by simp
  have len: "length ?E = length cop" by (rule ensure_length)
  have hd: "map soc_begin (take 1 ?E)
            = map (\<lambda>r. clip (min_soc b) (max_soc b) (soc_begin r)) (take 1 cop)"
  proof -
    have "map soc_begin (take 1 ?E)
          = map (clip (min_soc b) (max_soc b)) (map soc_begin (take 1 (feasibility_loop b cop)))"
      by (simp add: ensure_soc_feasibility_def take_map comp_def)
    also have "\<dots> = map (clip (min_soc b) (max_soc b)) (map soc_begin (take 1 cop))"
      by (simp only: feasibility_loop_head)
    finally show ?thesis by (simp add: comp_def)
  qed
  show ?thesis
    using frame len hd f [of idx] f [of hour_ending] f [of status] f [of hsl] f [of lsl]
      f [of soc_min] f [of soc_max] f [of mode]
    by (simp add: comp_def erase_repaired_def)
qed

subsection \<open>Running the repair twice\<close>

lemma feasibility_loop_Cons:
  "\<exists>r' rs'. feasibility_loop b (r # rs) = r' # rs' \<and> soc_begin r' = soc_begin r"
  by (cases rs) (auto simp: Let_def)

lemma feasibility_loop_repaired:
  "successively (repaired_step b) (map soc_begin (feasibility_loop b cop))"
proof (induction b cop rule: feasibility_loop.induct)
  case (1 b cur nxt rest)
  let ?u = "soc_begin cur" and ?v = "soc_begin nxt"
  consider (c) "?v - ?u > max_charge_of b ?u"
    | (d) "\<not> ?v - ?u > max_charge_of b ?u" "?v - ?u < - max_discharge_of b ?u"
    | (k) "\<not> ?v - ?u > max_charge_of b ?u" "\<not> ?v - ?u < - max_discharge_of b ?u"
    by blast
  then show ?case
  proof cases
    case c
    let ?n = "nxt\<lparr>soc_begin := ?u + max_charge_of b ?u\<rparr>"
    obtain r' rs' where e: "feasibility_loop b (?n # rest) = r' # rs'" "soc_begin r' = soc_begin ?n"
      using feasibility_loop_Cons by blast
    from c have ih: "successively (repaired_step b) (map soc_begin (feasibility_loop b (?n # rest)))"
      using "1.IH"(1) by simp
    from c e ih show ?thesis by (simp add: Let_def repaired_step_def)
  next
    case d
    let ?n = "nxt\<lparr>soc_begin := ?u - max_discharge_of b ?u\<rparr>"
    obtain r' rs' where e: "feasibility_loop b (?n # rest) = r' # rs'" "soc_begin r' = soc_begin ?n"
      using feasibility_loop_Cons by blast
    from d have ih: "successively (repaired_step b) (map soc_begin (feasibility_loop b (?n # rest)))"
      using "1.IH"(2) by simp
    from d e ih show ?thesis by (simp add: Let_def repaired_step_def)
  next
    case k
    obtain r' rs' where e: "feasibility_loop b (nxt # rest) = r' # rs'" "soc_begin r' = soc_begin nxt"
      using feasibility_loop_Cons by blast
    from k have ih: "successively (repaired_step b) (map soc_begin (feasibility_loop b (nxt # rest)))"
      using "1.IH"(3) by simp
    from k e ih show ?thesis by (simp add: Let_def repaired_step_def feasible_step_def)
  qed
qed simp_all

lemma clip_step_arith:
  fixes c e lo hi u v :: real
  assumes "0 \<le> c" "0 \<le> e" "lo \<le> hi"
    and "(\<not> v - u > min e (hi - u) \<and> \<not> v - u < - min c (u - lo))
         \<or> v = u + min e (hi - u) \<or> v = u - min c (u - lo)"
  shows "\<not> clip lo hi v - clip lo hi u > min e (hi - clip lo hi u)
         \<and> \<not> clip lo hi v - clip lo hi u < - min c (clip lo hi u - lo)"
  using assms unfolding clip_def Let_def min_def max_def
  by (auto split: if_splits)

lemma clip_repaired_step:
  assumes "physical b" "repaired_step b u v"
  shows "feasible_step b (clip (min_soc b) (max_soc b) u) (clip (min_soc b) (max_soc b) v)"
proof -
  have e: "0 \<le> \<bar>bess_lsl b\<bar> * efficiency b"
    using assms(1) by (simp add: physical_def)
  have c: "0 \<le> bess_hsl b" "min_soc b \<le> max_soc b"
    using assms(1) by (simp_all add: physical_def bess_hsl_def)
  show ?thesis
    using clip_step_arith [OF c(1) e c(2), where u = u and v = v] assms(2)
    unfolding repaired_step_def feasible_step_def max_charge_of_def max_discharge_of_def
    by blast
qed

lemma successively_map_mono:
  "successively P xs \<Longrightarrow> (\<And>x y. P x y \<Longrightarrow> Q (f x) (f y)) \<Longrightarrow> successively Q (map f xs)"
  by (induction P xs rule: successively.induct) auto

lemma feasibility_loop_fixpoint:
  "successively (feasible_step b) (map soc_begin cop) \<Longrightarrow> feasibility_loop b cop = cop"
  by (induction b cop rule: feasibility_loop.induct)
     (auto simp: Let_def feasible_step_def)

lemma clip_idem: "clip lo hi (clip lo hi x) = clip lo hi x"
  by (simp add: clip_def Let_def min_def max_def)

lemma clip_within: "lo \<le> x \<Longrightarrow> x \<le> hi \<Longrightarrow> clip lo hi x = x"
  by (simp add: clip_def Let_def min_def max_def)

lemma repair_idempotent_aux:
  assumes "physical b"
  shows "ensure_soc_feasibility b (ensure_soc_feasibility b cop) = ensure_soc_feasibility b cop"
proof -
  let ?c = "clip (min_soc b) (max_soc b)"
  let ?E = "ensure_soc_feasibility b cop"
  have "map soc_begin ?E = map ?c (map soc_begin (feasibility_loop b cop))"
    by (simp add: ensure_soc_feasibility_def comp_def)
  moreover have "successively (feasible_step b) (map ?c (map soc_begin (feasibility_loop b cop)))"
    using feasibility_loop_repaired [of b cop] clip_repaired_step [OF assms]
    by (rule successively_map_mono)
  ultimately have "successively (feasible_step b) (map soc_begin ?E)" by simp
  then have "feasibility_loop b ?E = ?E" by (rule feasibility_loop_fixpoint)
  then have "ensure_soc_feasibility b ?E = map (\<lambda>r. r\<lparr>soc_begin := ?c (soc_begin r)\<rparr>) ?E"
    by (simp add: ensure_soc_feasibility_def)
  also have "\<dots> = ?E"
    by (simp add: ensure_soc_feasibility_def clip_idem comp_def)
  finally show ?thesis .
qed

lemma repair_feasible_aux:
  assumes "successively (feasible_step b) (map soc_begin cop)"
    and "list_all (\<lambda>r. min_soc b \<le> soc_begin r \<and> soc_begin r \<le> max_soc b) cop"
  shows "ensure_soc_feasibility b cop = cop"
proof -
  have "feasibility_loop b cop = cop"
    using assms(1) by (rule feasibility_loop_fixpoint)
  then have "ensure_soc_feasibility b cop
             = map (\<lambda>r. r\<lparr>soc_begin := clip (min_soc b) (max_soc b) (soc_begin r)\<rparr>) cop"
    by (simp add: ensure_soc_feasibility_def)
  also have "\<dots> = cop"
    using assms(2) by (intro map_idI) (simp add: list_all_iff clip_within)
  finally show ?thesis .
qed

text \<open>
  C2. For a physical profile (capacity and efficiency not negative, minimum SOC not above
  maximum SOC) and every plan, repairing a repaired plan returns it unchanged. Every
  profile of the spec's data model (capacity above 0, efficiency in (0, 1],
  0 \<le> minimum SOC < maximum SOC) is physical. And for every profile, a plan that is
  already feasible, with every SOC within the profile's bounds and every step from one
  hour to the next within the charge and discharge limits, is returned unchanged: no
  \<^verbatim>\<open>soc_begin\<close> and no \<^verbatim>\<open>target_mw\<close> cell changes.
\<close>

theorem repair_idempotent_physical:
  "(physical b \<longrightarrow>
      ensure_soc_feasibility b (ensure_soc_feasibility b cop) = ensure_soc_feasibility b cop)
   \<and> (successively (feasible_step b) (map soc_begin cop)
        \<and> list_all (\<lambda>r. min_soc b \<le> soc_begin r \<and> soc_begin r \<le> max_soc b) cop
      \<longrightarrow> ensure_soc_feasibility b cop = cop)"
  using repair_idempotent_aux [of b cop] repair_feasible_aux [of b cop] by blast

theorem repair_idempotent_physical_witness:
  "physical small_profile
   \<and> ensure_soc_feasibility small_profile
       (ensure_soc_feasibility small_profile [plain_row 0 10, plain_row 1 19, plain_row 2 28])
     = ensure_soc_feasibility small_profile [plain_row 0 10, plain_row 1 19, plain_row 2 28]
   \<and> successively (feasible_step small_profile)
        (map soc_begin [plain_row 0 10, plain_row 1 19, plain_row 2 20])
   \<and> list_all (\<lambda>r. min_soc small_profile \<le> soc_begin r \<and> soc_begin r \<le> max_soc small_profile)
        [plain_row 0 10, plain_row 1 19, plain_row 2 20]
   \<and> ensure_soc_feasibility small_profile [plain_row 0 10, plain_row 1 19, plain_row 2 20]
     = [plain_row 0 10, plain_row 1 19, plain_row 2 20]"
proof -
  have p: "physical small_profile"
    by (simp add: physical_def small_profile_def)
  have s: "successively (feasible_step small_profile)
             (map soc_begin [plain_row 0 10, plain_row 1 19, plain_row 2 20])"
    by (simp add: feasible_step_def max_charge_of_def max_discharge_of_def bess_hsl_def
          bess_lsl_def small_profile_def plain_row_def)
  have l: "list_all (\<lambda>r. min_soc small_profile \<le> soc_begin r \<and> soc_begin r \<le> max_soc small_profile)
             [plain_row 0 10, plain_row 1 19, plain_row 2 20]"
    by (simp add: small_profile_def plain_row_def)
  show ?thesis
    using p s l
      repair_idempotent_physical
        [of small_profile "[plain_row 0 10, plain_row 1 19, plain_row 2 28]"]
      repair_idempotent_physical
        [of small_profile "[plain_row 0 10, plain_row 1 19, plain_row 2 20]"]
    by blast
qed

text \<open>
  The condition on the profile is needed for the first part. With efficiency -2
  (capacity 1, bounds 0 and 10) and two hours at SOC 5, the first run charges
  \<open>min (-2) 5 = -2\<close> at most, writes SOC 3 and target \<open>lsl = -1\<close>; the second run finds the
  step of -2 below the discharge limit \<open>min 1 5 = 1\<close>, writes SOC 4 and target \<open>hsl = 1\<close>.
\<close>

lemma repair_needs_physical_profile:
  "ensure_soc_feasibility negative_efficiency_profile
     (ensure_soc_feasibility negative_efficiency_profile [plain_row 0 5, plain_row 1 5])
   \<noteq> ensure_soc_feasibility negative_efficiency_profile [plain_row 0 5, plain_row 1 5]"
  by (simp add: ensure_soc_feasibility_def max_charge_of_def max_discharge_of_def
        bess_lsl_def bess_hsl_def clip_def Let_def negative_efficiency_profile_def plain_row_def)

section \<open>Properties of the validator\<close>

subsection \<open>The SOC-feasibility check\<close>

lemma soc_feasibility_pair_bess [simp]: "bess (soc_feasibility_pair v i c n) = bess v"
  by (simp add: soc_feasibility_pair_def Let_def append_error_def)

lemma soc_feasibility_pair_warnings [simp]:
  "validation_warnings (soc_feasibility_pair v i c n) = validation_warnings v"
  by (simp add: soc_feasibility_pair_def Let_def append_error_def)

lemma soc_feasibility_loop_bess [simp]: "bess (soc_feasibility_loop v i rows) = bess v"
  by (induction v i rows rule: soc_feasibility_loop.induct) simp_all

lemma soc_feasibility_loop_warnings [simp]:
  "validation_warnings (soc_feasibility_loop v i rows) = validation_warnings v"
  by (induction v i rows rule: soc_feasibility_loop.induct) simp_all

lemma soc_feasibility_pair_charge:
  "charge_finding k \<in> set (validation_errors (soc_feasibility_pair v i c n))
   \<longleftrightarrow> charge_finding k \<in> set (validation_errors v)
       \<or> (k = i \<and> soc_begin n - soc_begin c > row_max_charge (bess v) c + 0.01)"
  by (auto simp: soc_feasibility_pair_def Let_def append_error_def charge_finding_def)

lemma soc_feasibility_pair_discharge:
  "discharge_finding k \<in> set (validation_errors (soc_feasibility_pair v i c n))
   \<longleftrightarrow> discharge_finding k \<in> set (validation_errors v)
       \<or> (k = i \<and> \<not> soc_begin n - soc_begin c > row_max_charge (bess v) c + 0.01
            \<and> soc_begin n - soc_begin c < - (row_max_discharge c + 0.01))"
  by (auto simp: soc_feasibility_pair_def Let_def append_error_def discharge_finding_def)

lemma ex_nat_split: "(\<exists>j. P j) \<longleftrightarrow> P 0 \<or> (\<exists>j. P (Suc j))"
  by (metis not0_implies_Suc)

lemma soc_feasibility_loop_charge:
  "charge_finding k \<in> set (validation_errors (soc_feasibility_loop v i rows))
   \<longleftrightarrow> charge_finding k \<in> set (validation_errors v)
       \<or> (\<exists>j. k = i + j \<and> Suc j < length rows
          \<and> soc_begin (rows ! Suc j) - soc_begin (rows ! j)
              > row_max_charge (bess v) (rows ! j) + 0.01)"
proof (induction v i rows rule: soc_feasibility_loop.induct)
  case (1 v i current next_hour rest)
  show ?case
    unfolding soc_feasibility_loop.simps "1.IH" soc_feasibility_pair_charge
    by (subst (2) ex_nat_split) auto
qed simp_all

lemma soc_feasibility_loop_discharge:
  "discharge_finding k \<in> set (validation_errors (soc_feasibility_loop v i rows))
   \<longleftrightarrow> discharge_finding k \<in> set (validation_errors v)
       \<or> (\<exists>j. k = i + j \<and> Suc j < length rows
          \<and> \<not> soc_begin (rows ! Suc j) - soc_begin (rows ! j)
              > row_max_charge (bess v) (rows ! j) + 0.01
          \<and> soc_begin (rows ! Suc j) - soc_begin (rows ! j)
              < - (row_max_discharge (rows ! j) + 0.01))"
proof (induction v i rows rule: soc_feasibility_loop.induct)
  case (1 v i current next_hour rest)
  show ?case
    unfolding soc_feasibility_loop.simps "1.IH" soc_feasibility_pair_discharge
    by (subst (2) ex_nat_split) auto
qed simp_all

text \<open>
  C3, as the code has it. For every plan and every position \<open>k\<close>, the SOC-feasibility
  check records \<^verbatim>\<open>SOC_INFEASIBLE_CHARGE\<close> (an ERROR) at \<open>k\<close> exactly when hour \<open>k + 1\<close>
  exists and the stored SOC step exceeds
  \<open>min (\<bar>lsl\<bar> * efficiency) (soc_max - soc_begin) + 0.01\<close>, and otherwise
  \<^verbatim>\<open>SOC_INFEASIBLE_DISCHARGE\<close> exactly when the step is below
  \<open>- (min hsl (soc_begin - soc_min) + 0.01)\<close>, where \<open>hsl\<close>, \<open>lsl\<close>, \<open>soc_min\<close> and
  \<open>soc_max\<close> are the cells of row \<open>k\<close> itself and only the efficiency is the profile's.
\<close>

theorem validator_soc_feasibility_flags:
  "(charge_finding k \<in> set (validation_errors (validate_soc_feasibility (COPValidator_init b) cop))
     \<longleftrightarrow> Suc k < length cop
         \<and> soc_begin (cop ! Suc k) - soc_begin (cop ! k)
             > min (\<bar>lsl (cop ! k)\<bar> * efficiency b) (soc_max (cop ! k) - soc_begin (cop ! k)) + 0.01)
   \<and> (discharge_finding k \<in> set (validation_errors (validate_soc_feasibility (COPValidator_init b) cop))
     \<longleftrightarrow> Suc k < length cop
         \<and> \<not> soc_begin (cop ! Suc k) - soc_begin (cop ! k)
             > min (\<bar>lsl (cop ! k)\<bar> * efficiency b) (soc_max (cop ! k) - soc_begin (cop ! k)) + 0.01
         \<and> soc_begin (cop ! Suc k) - soc_begin (cop ! k)
             < - (min (hsl (cop ! k)) (soc_begin (cop ! k) - soc_min (cop ! k)) + 0.01))"
  unfolding validate_soc_feasibility_def soc_feasibility_loop_charge soc_feasibility_loop_discharge
  by (simp add: COPValidator_init_def row_max_charge_def row_max_discharge_def)


text \<open>
  C3, as stated, fails: the validator's bounds are not the ones the repair computes from
  the profile's \<^verbatim>\<open>min_soc\<close> and \<^verbatim>\<open>max_soc\<close>. On a row with SOC 10 and \<^verbatim>\<open>soc_max\<close> 12
  followed by SOC 15, under the profile with capacity 10, efficiency 1 and bounds 0 and
  20, the repair's charge limit is \<open>min 10 (20 - 10) = 10\<close> and the step 5 is within it;
  the validator's limit is \<open>min 10 (12 - 10) = 2\<close> and it records
  \<^verbatim>\<open>SOC_INFEASIBLE_CHARGE\<close>.
\<close>

theorem validator_bounds_counterexample:
  "row_max_charge small_profile (cop_row 0 10 0 12)
     \<noteq> max_charge_of small_profile (soc_begin (cop_row 0 10 0 12))
   \<and> charge_finding 0
       \<in> set (validation_errors (validate_soc_feasibility (COPValidator_init small_profile)
                 [cop_row 0 10 0 12, cop_row 1 15 0 20]))
   \<and> \<not> soc_begin (cop_row 1 15 0 20) - soc_begin (cop_row 0 10 0 12)
         > max_charge_of small_profile (soc_begin (cop_row 0 10 0 12)) + 0.01"
  by (simp add: validate_soc_feasibility_def soc_feasibility_pair_def COPValidator_init_def
        row_max_charge_def row_max_discharge_def max_charge_of_def bess_lsl_def
        small_profile_def cop_row_def charge_finding_def append_error_def Let_def)

subsection \<open>Severities and the valid flag\<close>

lemma foldl_invariant:
  "P a \<Longrightarrow> (\<And>a x. P a \<Longrightarrow> P (f a x)) \<Longrightarrow> P (foldl f a xs)"
  by (induction xs arbitrary: a) simp_all

lemma sorted_append_error:
  "findings_sorted v \<Longrightarrow> is_error_finding f \<Longrightarrow> findings_sorted (append_error v f)"
  by (simp add: findings_sorted_def append_error_def)

lemma sorted_append_warning:
  "findings_sorted v \<Longrightarrow> is_warning_finding f \<Longrightarrow> findings_sorted (append_warning v f)"
  by (simp add: findings_sorted_def append_warning_def)

lemma sorted_soc_feasibility_pair:
  "findings_sorted v \<Longrightarrow> findings_sorted (soc_feasibility_pair v i c n)"
  by (simp add: soc_feasibility_pair_def Let_def sorted_append_error is_error_finding_def
        warning_types_def)

lemma sorted_soc_feasibility_loop:
  "findings_sorted v \<Longrightarrow> findings_sorted (soc_feasibility_loop v i cop)"
  by (induction v i cop rule: soc_feasibility_loop.induct)
     (simp_all add: sorted_soc_feasibility_pair)

lemma sorted_soc_bounds_row:
  "findings_sorted v \<Longrightarrow> findings_sorted (soc_bounds_row v row)"
  by (simp add: soc_bounds_row_def Let_def sorted_append_error sorted_append_warning
        is_error_finding_def is_warning_finding_def warning_types_def)

lemma sorted_ramp_rates_pair:
  "findings_sorted v \<Longrightarrow> findings_sorted (ramp_rates_pair v i c n)"
  by (simp add: ramp_rates_pair_def Let_def sorted_append_warning is_warning_finding_def
        warning_types_def)

lemma sorted_ramp_rates_loop:
  "findings_sorted v \<Longrightarrow> findings_sorted (ramp_rates_loop v i cop)"
  by (induction v i cop rule: ramp_rates_loop.induct)
     (simp_all add: sorted_ramp_rates_pair)

lemma sorted_as_requirements_row:
  "findings_sorted v \<Longrightarrow> findings_sorted (as_requirements_row v row)"
  by (simp add: as_requirements_row_def Let_def sorted_append_warning is_warning_finding_def
        warning_types_def)

lemma sorted_null_values_field:
  "findings_sorted v \<Longrightarrow> findings_sorted (null_values_field cop v field)"
  by (simp add: null_values_field_def sorted_append_error is_error_finding_def warning_types_def)

lemma sorted_data_completeness:
  "findings_sorted v \<Longrightarrow> findings_sorted (validate_data_completeness v cop)"
  unfolding validate_data_completeness_def Let_def
  by (rule foldl_invariant)
     (simp_all add: sorted_null_values_field sorted_append_error is_error_finding_def
        warning_types_def)

lemma sorted_timeline:
  "findings_sorted v \<Longrightarrow> findings_sorted (validate_timeline_requirements v cop)"
  by (simp add: validate_timeline_requirements_def sorted_append_warning is_warning_finding_def
        warning_types_def)

lemma sorted_validate: "findings_sorted (snd (validate v cop))"
proof -
  have "findings_sorted (v\<lparr>validation_errors := [], validation_warnings := []\<rparr>)"
    by (simp add: findings_sorted_def)
  then have "findings_sorted (validate_soc_feasibility
               (v\<lparr>validation_errors := [], validation_warnings := []\<rparr>) cop)"
    unfolding validate_soc_feasibility_def by (rule sorted_soc_feasibility_loop)
  then have "findings_sorted (validate_soc_bounds (validate_soc_feasibility
               (v\<lparr>validation_errors := [], validation_warnings := []\<rparr>) cop) cop)"
    unfolding validate_soc_bounds_def by (rule foldl_invariant) (rule sorted_soc_bounds_row)
  then have "findings_sorted (validate_ramp_rates (validate_soc_bounds (validate_soc_feasibility
               (v\<lparr>validation_errors := [], validation_warnings := []\<rparr>) cop) cop) cop)"
    unfolding validate_ramp_rates_def by (rule sorted_ramp_rates_loop)
  then have "findings_sorted (validate_as_requirements (validate_ramp_rates (validate_soc_bounds
               (validate_soc_feasibility
               (v\<lparr>validation_errors := [], validation_warnings := []\<rparr>) cop) cop) cop) cop)"
    unfolding validate_as_requirements_def
    by (rule foldl_invariant) (rule sorted_as_requirements_row)
  then show ?thesis
    by (simp add: validate_def Let_def sorted_timeline sorted_data_completeness)
qed

lemma validate_report:
  "errors (fst (validate v cop)) = validation_errors (snd (validate v cop))"
  "warnings (fst (validate v cop)) = validation_warnings (snd (validate v cop))"
  "valid (fst (validate v cop)) = (validation_errors (snd (validate v cop)) = [])"
  "error_count (fst (validate v cop)) = length (validation_errors (snd (validate v cop)))"
  "warning_count (fst (validate v cop)) = length (validation_warnings (snd (validate v cop)))"
  by (simp_all add: validate_def Let_def)

lemma filter_none: "list_all (\<lambda>x. \<not> P x) xs \<Longrightarrow> filter P xs = []"
  by (induction xs) simp_all

lemma filter_all: "list_all P xs \<Longrightarrow> filter P xs = xs"
  by (induction xs) simp_all

text \<open>
  C7. For every validator state and plan, \<^verbatim>\<open>valid\<close> is true exactly when the list of
  errors is empty, which is exactly when no finding of the report has severity ERROR.
  Every finding in \<^verbatim>\<open>errors\<close> has severity ERROR and none of the six warning types;
  every finding in \<^verbatim>\<open>warnings\<close> has severity WARNING and one of the six warning types
  (\<^verbatim>\<open>RAMP_RATE_EXCEEDED\<close>, \<^verbatim>\<open>INSUFFICIENT_SOC_FOR_RRS\<close>, \<^verbatim>\<open>INSUFFICIENT_SOC_FOR_ECRS\<close>,
  \<^verbatim>\<open>SOC_MIN_INCONSISTENT\<close>, \<^verbatim>\<open>SOC_MAX_INCONSISTENT\<close>, \<^verbatim>\<open>INSUFFICIENT_HORIZON\<close>), so
  warnings, however many, have no part in the flag.
\<close>

theorem valid_iff_no_error_finding:
  "valid (fst (validate v cop)) = (errors (fst (validate v cop)) = [])
   \<and> valid (fst (validate v cop))
       = (filter (\<lambda>f. severity f = ERROR)
            (errors (fst (validate v cop)) @ warnings (fst (validate v cop))) = [])
   \<and> list_all is_error_finding (errors (fst (validate v cop)))
   \<and> list_all is_warning_finding (warnings (fst (validate v cop)))"
proof -
  let ?r = "fst (validate v cop)"
  have s: "list_all is_error_finding (errors ?r)" "list_all is_warning_finding (warnings ?r)"
    using sorted_validate [of v cop] by (simp_all add: findings_sorted_def validate_report)
  have "list_all (\<lambda>f. severity f = ERROR) (errors ?r)"
    using s(1) by (simp add: list_all_iff is_error_finding_def)
  then have e: "filter (\<lambda>f. severity f = ERROR) (errors ?r) = errors ?r"
    by (rule filter_all)
  have "list_all (\<lambda>f. \<not> severity f = ERROR) (warnings ?r)"
    using s(2) by (simp add: list_all_iff is_warning_finding_def)
  then have w: "filter (\<lambda>f. severity f = ERROR) (warnings ?r) = []"
    by (rule filter_none)
  show ?thesis using s e w by (simp add: validate_report)
qed

subsection \<open>The validator's fields across calls\<close>

lemma append_bess [simp]:
  "bess (append_error v f) = bess v" "bess (append_warning v f) = bess v"
  by (simp_all add: append_error_def append_warning_def)

lemma validate_bess: "bess (snd (validate v cop)) = bess v"
proof -
  have 1: "bess (foldl soc_bounds_row a cop) = bess a" for a
    by (induction cop arbitrary: a) (simp_all add: soc_bounds_row_def Let_def)
  have 2: "bess (ramp_rates_loop a i cop) = bess a" for a i
    by (induction a i cop rule: ramp_rates_loop.induct) (simp_all add: ramp_rates_pair_def Let_def)
  have 3: "bess (foldl as_requirements_row a cop) = bess a" for a
    by (induction cop arbitrary: a) (simp_all add: as_requirements_row_def Let_def)
  have 4: "bess (foldl (null_values_field cop) a fs) = bess a" for a fs
    by (induction fs arbitrary: a) (simp_all add: null_values_field_def)
  show ?thesis
    by (simp add: validate_def Let_def validate_timeline_requirements_def
          validate_data_completeness_def validate_as_requirements_def validate_ramp_rates_def
          validate_soc_bounds_def validate_soc_feasibility_def 1 2 3 4)
qed

lemma validate_reset:
  "validate v cop = validate (COPValidator_init (bess v)) cop"
proof -
  have "v\<lparr>validation_errors := [], validation_warnings := []\<rparr>
        = (COPValidator_init (bess v))\<lparr>validation_errors := [], validation_warnings := []\<rparr>"
    by (cases v) (simp add: COPValidator_init_def)
  then show ?thesis by (simp add: validate_def)
qed

text \<open>
  C9, as the code has it. \<^verbatim>\<open>validate\<close> empties both fields before it runs the checks,
  so the report of a call that follows any other call on the same validator is the
  report a new validator of the same profile gives for that plan.
\<close>

theorem validate_second_call_fresh:
  "fst (validate (snd (validate v cop1)) cop2) = fst (validate (COPValidator_init (bess v)) cop2)"
  using validate_reset [of "snd (validate v cop1)" cop2] by (simp add: validate_bess)

text \<open>
  C9, as stated, fails. One hour with SOC -1 under minimum SOC 0 gives one error,
  \<^verbatim>\<open>SOC_BELOW_MIN\<close>. A second call on the same validator with the same plan reports that
  error once, not twice, and a second call with a plan that has no error reports none.
\<close>

theorem validate_twice_counterexample:
  "errors (fst (validate (COPValidator_init small_profile) [below_min_row]))
     = [\<lparr>hour = Some (Label 0), ftype = SOC_BELOW_MIN, severity = ERROR\<rparr>]
   \<and> errors (fst (validate (snd (validate (COPValidator_init small_profile) [below_min_row]))
                [below_min_row]))
     = [\<lparr>hour = Some (Label 0), ftype = SOC_BELOW_MIN, severity = ERROR\<rparr>]
   \<and> errors (fst (validate (snd (validate (COPValidator_init small_profile) [below_min_row]))
                [cop_row 0 10 0 20]))
     = []"
  by (simp add: validate_def Let_def validate_timeline_requirements_def
        validate_data_completeness_def validate_as_requirements_def validate_ramp_rates_def
        validate_soc_bounds_def validate_soc_feasibility_def COPValidator_init_def
        below_min_row_def cop_row_def small_profile_def soc_bounds_row_def
        as_requirements_row_def null_values_field_def isnull_any_def cop_columns_def
        required_fields_def append_error_def append_warning_def)

section \<open>Properties of the generator\<close>

subsection \<open>The commitments overlay\<close>

lemma filter_key_cases:
  "distinct (map fst xs)
   \<Longrightarrow> filter (\<lambda>(k, c). k = h) xs = (case map_of xs h of None \<Rightarrow> [] | Some c \<Rightarrow> [(h, c)])"
proof (induction xs)
  case (Cons x xs)
  obtain k d where x: "x = (k, d)" by (cases x)
  show ?case
  proof (cases "k = h")
    case True
    with Cons.prems x have "h \<notin> fst ` set xs" by auto
    then have "filter (\<lambda>(k, c). k = h) xs = []"
      by (force simp: filter_empty_conv)
    with True x show ?thesis by simp
  next
    case False
    with Cons x show ?thesis by simp
  qed
qed simp

lemma filter_idx_unique:
  "distinct (map idx cop) \<Longrightarrow> length (filter (\<lambda>r. idx r = h) cop) \<le> 1"
proof (induction cop)
  case (Cons r cop)
  show ?case
  proof (cases "idx r = h")
    case True
    with Cons.prems have "h \<notin> idx ` set cop" by auto
    then have "filter (\<lambda>r. idx r = h) cop = []" by (auto simp: filter_empty_conv)
    with True show ?thesis by simp
  next
    case False
    with Cons show ?thesis by auto
  qed
qed simp

lemma overlay_spec_idx [simp]: "idx (overlay_spec c r) = idx r"
  by (simp add: overlay_spec_def)

lemma map_of_as_read:
  "map_of (as_read a) h
   = map_option (\<lambda>c. \<lparr>regulation = column_or_zero a ''regulation'' (regulation c),
                       rrs = column_or_zero a ''rrs'' (rrs c),
                       ecrs = column_or_zero a ''ecrs'' (ecrs c)\<rparr>) (map_of (as_rows a) h)"
  by (simp add: as_read_def map_of_map)


lemma fst_as_read [simp]: "map fst (as_read a) = map fst (as_rows a)"
  by (simp add: as_read_def comp_def split_def)

lemma fst_set_as_read: "fst ` set (as_read a) = fst ` set (as_rows a)"
  using arg_cong [OF fst_as_read, of set a] by (simp only: set_map)

lemma as_loc_unique:
  assumes "distinct (map fst (as_rows a))" "map_of (as_rows a) h = Some c"
  shows "as_loc a h column = Scalar (column c)"
  using filter_key_cases [OF assms(1), of h] assms(2) by (simp add: as_loc_def)

lemma apply_as_hour_distinct:
  assumes "distinct (map fst (as_rows a))" "distinct (map idx cop)"
    and "map_of (as_read a) h = Some c"
  shows "apply_as_hour a cop h = Inr (map (\<lambda>r. if idx r = h then overlay_spec c r else r) cop)"
proof (cases "h \<in> set (map idx cop)")
  case False
  then have "map (\<lambda>r. if idx r = h then overlay_spec c r else r) cop = cop"
    by (intro map_idI) auto
  with False show ?thesis by (simp add: apply_as_hour_def)
next
  case True
  obtain c0 where c0: "map_of (as_rows a) h = Some c0"
    and c: "c = \<lparr>regulation = column_or_zero a ''regulation'' (regulation c0),
                 rrs = column_or_zero a ''rrs'' (rrs c0),
                 ecrs = column_or_zero a ''ecrs'' (ecrs c0)\<rparr>"
    using assms(3) by (auto simp: map_of_as_read)
  have reg: "(if ''regulation'' \<in> set (as_columns a) then as_loc a h regulation else Scalar 0)
             = Scalar (regulation c)"
    by (simp add: c column_or_zero_def as_loc_unique [OF assms(1) c0])
  have rrs: "(if ''rrs'' \<in> set (as_columns a) then as_loc a h rrs else Scalar 0)
             = Scalar (rrs c)"
    by (simp add: c column_or_zero_def as_loc_unique [OF assms(1) c0])
  have ecrs: "(if ''ecrs'' \<in> set (as_columns a) then as_loc a h ecrs else Scalar 0)
              = Scalar (ecrs c)"
    by (simp add: c column_or_zero_def as_loc_unique [OF assms(1) c0])
  have one: "\<not> Suc 0 < length (filter (\<lambda>r. idx r = h) cop)"
    using filter_idx_unique [OF assms(2), of h] by simp
  from True have t: "\<not> h \<notin> set (map idx cop)" by simp
  show ?thesis
    unfolding apply_as_hour_def if_not_P [OF t] reg rrs ecrs Let_def
    by (cases "0 < regulation c"; cases "0 < rrs c"; cases "0 < ecrs c";
        simp add: one loc_update_def overlay_spec_def cong: if_cong)
qed

lemma apply_as_loop_distinct:
  assumes "distinct (map fst (as_rows a))"
  shows "distinct (map idx cop) \<Longrightarrow> distinct hs \<Longrightarrow> set hs \<subseteq> fst ` set (as_rows a) \<Longrightarrow>
         apply_as_loop a hs cop
         = Inr (map (\<lambda>r. if idx r \<in> set hs then overlay_spec (the (map_of (as_read a) (idx r))) r
                          else r) cop)"
proof (induction hs arbitrary: cop)
  case Nil
  then show ?case by simp
next
  case (Cons h hs)
  from Cons.prems(3) have "h \<in> fst ` set (as_read a)"
    by (simp add: fst_set_as_read)
  then obtain c where c: "map_of (as_read a) h = Some c"
    by (cases "map_of (as_read a) h") (auto simp: map_of_eq_None_iff)
  let ?cop = "map (\<lambda>r. if idx r = h then overlay_spec c r else r) cop"
  have step: "apply_as_hour a cop h = Inr ?cop"
    using assms Cons.prems(1) c by (rule apply_as_hour_distinct)
  have "idx (if idx r = h then overlay_spec c r else r) = idx r" for r :: "'a plan_hour_scheme"
    by simp
  then have idx: "map idx ?cop = map idx cop" by (simp add: comp_def)
  have d: "distinct (map idx ?cop)" using Cons.prems(1) by (simp only: idx)
  have "apply_as_loop a hs ?cop
        = Inr (map (\<lambda>r. if idx r \<in> set hs
                         then overlay_spec (the (map_of (as_read a) (idx r))) r else r) ?cop)"
    using Cons.prems d by (intro Cons.IH) simp_all
  also have "map (\<lambda>r. if idx r \<in> set hs
                         then overlay_spec (the (map_of (as_read a) (idx r))) r else r) ?cop
             = map (\<lambda>r. if idx r \<in> set (h # hs)
                         then overlay_spec (the (map_of (as_read a) (idx r))) r else r) cop"
    using Cons.prems(2) c by auto
  finally show ?case using step by simp
qed

lemma apply_as_commitments_distinct:
  assumes "distinct (map fst (as_rows a))" "distinct (map idx cop)"
  shows "apply_as_commitments cop a = Inr (apply_commitments_spec (as_read a) cop)"
proof -
  have "apply_as_commitments cop a
        = Inr (map (\<lambda>r. if idx r \<in> set (map fst (as_rows a))
                         then overlay_spec (the (map_of (as_read a) (idx r))) r else r) cop)"
    unfolding apply_as_commitments_def
    using assms by (intro apply_as_loop_distinct) simp_all
  also have "map (\<lambda>r. if idx r \<in> set (map fst (as_rows a))
                         then overlay_spec (the (map_of (as_read a) (idx r))) r else r) cop
             = apply_commitments_spec (as_read a) cop"
  proof -
    have "idx r \<in> set (map fst (as_rows a)) \<longleftrightarrow> map_of (as_read a) (idx r) \<noteq> None"
      for r :: "'a plan_hour_scheme"
      by (simp add: map_of_eq_None_iff fst_set_as_read)
    then show ?thesis
      unfolding apply_commitments_spec_def
      by (intro map_cong refl) (auto split: option.splits)
  qed
  finally show ?thesis .
qed

text \<open>
  C8. When the commitments have one row per timestamp and the plan one row per hour, the
  overlay succeeds and does to every plan hour whose timestamp is keyed exactly what the
  spec says: regulation above 0 gives status ONREG and target 0; otherwise RRS above 0
  gives status ONRR and \<^verbatim>\<open>soc_min\<close> raised to the RRS amount; otherwise ECRS above 0 gives
  status ONECRS and \<^verbatim>\<open>soc_min\<close> raised to twice the ECRS amount; one overlay at most, in
  that priority. Hours that are not keyed are unchanged. The amounts are the cells of the
  frame, and 0 for a product whose column the frame does not have.
\<close>

theorem overlay_first_match:
  assumes "distinct (map fst (as_rows as_commitments))" "distinct (map idx cop)"
  shows "apply_as_commitments cop as_commitments
         = Inr (map (\<lambda>r. case map_of (as_read as_commitments) (idx r) of
                           None \<Rightarrow> r
                         | Some c \<Rightarrow>
                             if regulation c > 0 then r\<lparr>status := ONREG, target_mw := 0\<rparr>
                             else if rrs c > 0 then
                               r\<lparr>status := ONRR, soc_min := max (soc_min r) (rrs c)\<rparr>
                             else if ecrs c > 0 then
                               r\<lparr>status := ONECRS, soc_min := max (soc_min r) (ecrs c * 2)\<rparr>
                             else r) cop)
         \<and> apply_as_commitments cop as_commitments
           = Inr (apply_commitments_spec (as_read as_commitments) cop)
         \<and> (set [''regulation'', ''rrs'', ''ecrs''] \<subseteq> set (as_columns as_commitments)
            \<longrightarrow> as_read as_commitments = as_rows as_commitments)"
proof -
  have "apply_as_commitments cop as_commitments
        = Inr (apply_commitments_spec (as_read as_commitments) cop)"
    using assms by (rule apply_as_commitments_distinct)
  moreover have "set [''regulation'', ''rrs'', ''ecrs''] \<subseteq> set (as_columns as_commitments)
            \<longrightarrow> as_read as_commitments = as_rows as_commitments"
    by (auto simp: as_read_def column_or_zero_def intro!: map_idI)
  ultimately show ?thesis
    by (simp add: apply_commitments_spec_def overlay_spec_def cong: option.case_cong)
qed

theorem overlay_first_match_witness:
  "distinct (map fst (as_rows three_products))
   \<and> distinct (map idx [plain_row 0 5, plain_row 1 5, plain_row 2 5, plain_row 3 5])
   \<and> set [''regulation'', ''rrs'', ''ecrs''] \<subseteq> set (as_columns three_products)
   \<and> apply_as_commitments [plain_row 0 5, plain_row 1 5, plain_row 2 5, plain_row 3 5]
        three_products
     = Inr [(plain_row 0 5)\<lparr>status := ONREG, target_mw := 0\<rparr>,
            (plain_row 1 5)\<lparr>status := ONRR, soc_min := 3\<rparr>,
            (plain_row 2 5)\<lparr>status := ONECRS, soc_min := 2\<rparr>,
            plain_row 3 5]"
proof -
  have d: "distinct (map fst (as_rows three_products))"
    by (simp add: three_products_def)
  have i: "distinct (map idx [plain_row 0 5, plain_row 1 5, plain_row 2 5, plain_row 3 5])"
    by (simp add: plain_row_def)
  have c: "set [''regulation'', ''rrs'', ''ecrs''] \<subseteq> set (as_columns three_products)"
    by (simp add: three_products_def)
  have r: "as_read three_products = as_rows three_products"
    using overlay_first_match [OF d i] c by blast
  show ?thesis
    using d i c overlay_first_match [OF d i]
    unfolding r
    by (simp add: three_products_def plain_row_def)
qed

subsection \<open>The base plan\<close>

lemma soc_loop_idx [simp]: "map idx (soc_loop b s cop) = map idx cop"
  by (induction cop arbitrary: s) simp_all

lemma calculate_soc_trajectory_idx [simp]:
  "map idx (calculate_soc_trajectory b i cop) = map idx cop"
proof -
  have "map idx (calculate_soc_trajectory b i cop)
        = map idx (soc_loop b (case i of None \<Rightarrow> max_soc b * 0.5 | Some s \<Rightarrow> s) cop)"
    by (simp add: calculate_soc_trajectory_def Let_def comp_def)
  then show ?thesis by simp
qed

lemma default_plan_idx [simp]: "map idx (generate_default_plan b hours) = hours"
  by (simp add: generate_default_plan_def comp_def default_row_def Let_def split_def)

lemma price_row_idx [simp]: "idx (price_row b cell h) = h"
  by (simp add: price_row_def Let_def split_def)

lemma merge_left_unique:
  assumes "distinct (map fst rows)"
  shows "map fst (merge_left hours rows) = hours"
proof -
  have "map fst (case filter (\<lambda>(k, p). k = h) rows of [] \<Rightarrow> [(h, None)] | x # xs \<Rightarrow> x # xs) = [h]"
    for h
    unfolding filter_key_cases [OF assms] by (cases "map_of rows h") simp_all
  then show ?thesis
    unfolding merge_left_def by (induction hours) simp_all
qed

lemma price_loop_unique:
  assumes "distinct (map fst merged)"
  shows "set rest \<subseteq> set merged \<Longrightarrow>
         price_loop b priced merged rest
         = Inr (map (\<lambda>(h, cell). price_row b (if priced then cell else Some 50) h) rest)"
proof (induction rest)
  case (Cons x rest)
  obtain h cell where x: "x = (h, cell)" by (cases x)
  have "length (filter (\<lambda>(k, p). k = h) merged) \<le> 1"
    unfolding filter_key_cases [OF assms] by (cases "map_of merged h") simp_all
  then have "\<not> Suc 0 < length (filter (\<lambda>(k, p). k = h) merged)" by simp
  with Cons x show ?case by simp
qed simp

lemma base_plan_unique:
  assumes "case pf of None \<Rightarrow> True | Some f \<Rightarrow> distinct (map fst (forecast_rows f))"
  shows "\<exists>base. base_plan b s d pf = Inr base \<and> map idx base = [s ..< s + d * 24]"
proof (cases pf)
  case None
  then show ?thesis by (simp add: base_plan_def)
next
  case (Some f)
  let ?hrs = "[s ..< s + d * 24]"
  let ?m = "merge_left ?hrs (forecast_rows f)"
  from assms Some have d: "distinct (map fst (forecast_rows f))" by simp
  have m: "map fst ?m = ?hrs" using d by (rule merge_left_unique)
  then have "distinct (map fst ?m)" by simp
  then have "price_loop b (has_price f) ?m ?m
             = Inr (map (\<lambda>(h, cell). price_row b (if has_price f then cell else Some 50) h) ?m)"
    by (rule price_loop_unique) simp
  moreover have "map idx (map (\<lambda>(h, cell). price_row b (if has_price f then cell else Some 50) h) ?m)
                 = map fst ?m"
    by (simp add: comp_def split_def)
  ultimately show ?thesis
    using m Some by (simp add: base_plan_def optimize_for_prices_def Let_def)
qed

subsection \<open>Failure does not depend on the profile\<close>

lemma price_loop_labels:
  "same_labels (price_loop b priced merged rest) (price_loop b' priced merged rest)"
proof (induction rest)
  case Nil
  then show ?case by (simp add: same_labels_def)
next
  case (Cons x rest)
  obtain h cell where x: "x = (h, cell)" by (cases x)
  from Cons show ?case
    unfolding x same_labels_def
    by (cases "price_loop b priced merged rest"; cases "price_loop b' priced merged rest")
       simp_all
qed

lemma base_plan_labels: "same_labels (base_plan b s d pf) (base_plan b' s d pf)"
proof (cases pf)
  case None
  then show ?thesis by (simp add: base_plan_def same_labels_def)
next
  case (Some f)
  let ?m = "merge_left [s ..< s + d * 24] (forecast_rows f)"
  have "same_labels (price_loop b (has_price f) ?m ?m) (price_loop b' (has_price f) ?m ?m)"
    by (rule price_loop_labels)
  then show ?thesis
    unfolding Some same_labels_def base_plan_def optimize_for_prices_def Let_def
    by (cases "price_loop b (has_price f) ?m ?m"; cases "price_loop b' (has_price f) ?m ?m")
       simp_all
qed

lemma loc_update_idx:
  "(\<And>r. idx (f r) = idx r) \<Longrightarrow> map idx (loc_update h f cop) = map idx cop"
  by (simp add: loc_update_def comp_def if_distrib cong: if_cong)

lemma filter_idx_length:
  "length (filter (\<lambda>r. idx r = h) cop) = length (filter (\<lambda>i. i = h) (map idx cop))"
  by (simp add: filter_map comp_def)

lemma apply_as_hour_labels:
  fixes cop cop' :: "plan_hour list"
  assumes "map idx cop = map idx cop'"
  shows "same_labels (apply_as_hour a cop h) (apply_as_hour a cop' h)"
proof -
  have l: "length (filter (\<lambda>r. idx r = h) cop) = length (filter (\<lambda>r. idx r = h) cop')"
    by (simp add: filter_idx_length assms)
  show ?thesis
    unfolding same_labels_def apply_as_hour_def Let_def l
    by (simp add: loc_update_idx assms [symmetric])
qed

lemma apply_as_loop_labels:
  fixes cop cop' :: "plan_hour list"
  shows "map idx cop = map idx cop'
         \<Longrightarrow> same_labels (apply_as_loop a hs cop) (apply_as_loop a hs cop')"
proof (induction hs arbitrary: cop cop')
  case Nil
  then show ?case by (simp add: same_labels_def)
next
  case (Cons h hs)
  have "same_labels (apply_as_hour a cop h) (apply_as_hour a cop' h)"
    using Cons.prems by (rule apply_as_hour_labels)
  then show ?case
    using Cons.IH
    by (cases "apply_as_hour a cop h"; cases "apply_as_hour a cop' h")
       (simp_all add: same_labels_def)
qed

lemma same_labels_isl: "same_labels x y \<Longrightarrow> isl x = isl y"
  by (cases x; cases y) (simp_all add: same_labels_def)

lemma generate_cop_steps:
  "generate_cop b s d pf asc
   = (case base_plan b s d pf of
        Inl e \<Rightarrow> Inl e
      | Inr base \<Rightarrow>
          (case (case asc of Some a \<Rightarrow> apply_as_commitments base a | None \<Rightarrow> Inr base) of
             Inl e \<Rightarrow> Inl e
           | Inr cop \<Rightarrow> Inr (add_cop_fields b (ensure_soc_feasibility b cop))))"
  by (cases pf) (simp_all add: generate_cop_def base_plan_def Let_def)

lemma generate_cop_failure_labels:
  "isl (generate_cop b s d pf asc) = isl (generate_cop b' s d pf asc)"
proof -
  have bp: "same_labels (base_plan b s d pf) (base_plan b' s d pf)"
    by (rule base_plan_labels)
  show ?thesis
  proof (cases "base_plan b s d pf")
    case (Inl e)
    with bp show ?thesis
      by (cases "base_plan b' s d pf") (simp_all add: generate_cop_steps same_labels_def)
  next
    case (Inr base)
    with bp obtain base' where b': "base_plan b' s d pf = Inr base'" "map idx base = map idx base'"
      by (cases "base_plan b' s d pf") (simp_all add: same_labels_def)
    show ?thesis
    proof (cases asc)
      case None
      with Inr b' show ?thesis by (simp add: generate_cop_steps)
    next
      case (Some a)
      have "same_labels (apply_as_commitments base a) (apply_as_commitments base' a)"
        unfolding apply_as_commitments_def using b'(2) by (rule apply_as_loop_labels)
      then have "isl (apply_as_commitments base a) = isl (apply_as_commitments base' a)"
        by (rule same_labels_isl)
      with Inr b' Some show ?thesis
        by (cases "apply_as_commitments base a"; cases "apply_as_commitments base' a")
           (simp_all add: generate_cop_steps)
    qed
  qed
qed

lemma soc_loop_length [simp]: "length (soc_loop b s cop) = length cop"
  by (induction cop arbitrary: s) simp_all

lemma default_plan_length [simp]: "length (generate_default_plan b hours) = length hours"
  by (simp add: generate_default_plan_def calculate_soc_trajectory_def Let_def)

lemma add_cop_fields_length [simp]: "length (add_cop_fields b cop) = length cop"
  by (simp add: add_cop_fields_def)

subsection \<open>The order of the steps of \<^verbatim>\<open>generate_cop\<close>\<close>

text \<open>
  C4, as the code has it. For every input the returned plan is the base plan with the
  overlay applied first, then the feasibility repair, then the remaining fields: the
  repair runs on the overlaid plan, and a failure of the base plan or of the overlay is
  the failure of the call. With commitments and a forecast that have one row per
  timestamp the call succeeds and the overlay is the one of the spec.
\<close>

theorem generate_overlay_then_repair:
  "generate_cop b start_date days price_forecast (Some as_commitments)
   = (case base_plan b start_date days price_forecast of
        Inl e \<Rightarrow> Inl e
      | Inr base \<Rightarrow>
          (case apply_as_commitments base as_commitments of
             Inl e \<Rightarrow> Inl e
           | Inr cop \<Rightarrow> Inr (add_cop_fields b (ensure_soc_feasibility b cop))))
   \<and> (distinct (map fst (as_rows as_commitments))
        \<and> (case price_forecast of
             None \<Rightarrow> True
           | Some f \<Rightarrow> distinct (map fst (forecast_rows f)))
      \<longrightarrow> (\<exists>base. base_plan b start_date days price_forecast = Inr base
            \<and> generate_cop b start_date days price_forecast (Some as_commitments)
              = Inr (add_cop_fields b (ensure_soc_feasibility b
                       (apply_commitments_spec (as_read as_commitments) base)))))"
proof -
  have 1: "generate_cop b start_date days price_forecast (Some as_commitments)
   = (case base_plan b start_date days price_forecast of
        Inl e \<Rightarrow> Inl e
      | Inr base \<Rightarrow>
          (case apply_as_commitments base as_commitments of
             Inl e \<Rightarrow> Inl e
           | Inr cop \<Rightarrow> Inr (add_cop_fields b (ensure_soc_feasibility b cop))))"
    by (cases "base_plan b start_date days price_forecast") (simp_all add: generate_cop_steps)
  have 2: "\<exists>base. base_plan b start_date days price_forecast = Inr base
            \<and> generate_cop b start_date days price_forecast (Some as_commitments)
              = Inr (add_cop_fields b (ensure_soc_feasibility b
                       (apply_commitments_spec (as_read as_commitments) base)))"
    if a: "distinct (map fst (as_rows as_commitments))"
      and f: "case price_forecast of None \<Rightarrow> True
              | Some f \<Rightarrow> distinct (map fst (forecast_rows f))"
  proof -
    obtain base where base: "base_plan b start_date days price_forecast = Inr base"
      "map idx base = [start_date ..< start_date + days * 24]"
      using base_plan_unique [OF f] by blast
    then have "distinct (map idx base)" by simp
    with a have "apply_as_commitments base as_commitments
                 = Inr (apply_commitments_spec (as_read as_commitments) base)"
      by (rule apply_as_commitments_distinct)
    with base(1) show ?thesis by (simp add: 1)
  qed
  from 1 2 show ?thesis by blast
qed

theorem generate_overlay_then_repair_witness:
  "distinct (map fst (as_rows regulation_at_midnight))
   \<and> (case Some two_prices of None \<Rightarrow> True | Some f \<Rightarrow> distinct (map fst (forecast_rows f)))
   \<and> (\<exists>base. base_plan tight_profile 0 1 (Some two_prices) = Inr base
        \<and> generate_cop tight_profile 0 1 (Some two_prices) (Some regulation_at_midnight)
          = Inr (add_cop_fields tight_profile (ensure_soc_feasibility tight_profile
                   (apply_commitments_spec (as_read regulation_at_midnight) base))))"
proof -
  have d: "distinct (map fst (as_rows regulation_at_midnight))"
    by (simp add: regulation_at_midnight_def)
  have f: "case Some two_prices of None \<Rightarrow> True
           | Some f \<Rightarrow> distinct (map fst (forecast_rows f))"
    by (simp add: two_prices_def)
  show ?thesis
    using d f
      generate_overlay_then_repair [of tight_profile 0 1 "Some two_prices" regulation_at_midnight]
    by blast
qed

lemma upt24: "[0..<24] = [0, 1, 2, 3, 4, 5, 6, 7, 8, 9, 10, 11, 12, 13, 14, 15, 16, 17, 18, 19, 20, 21, 22, 23]"
  by (simp add: upt_rec)

lemma pipeline_code_target:
  "map target_mw (take 1 (projr (generate_cop tight_profile 0 1 None (Some regulation_at_midnight))))
   = [- 10]"
  by (simp add: generate_cop_def upt24 generate_default_plan_def calculate_soc_trajectory_def
        default_row_def Let_def bess_lsl_def bess_hsl_def tight_profile_def soc_change_of_def
        apply_as_commitments_def apply_as_hour_def as_loc_def regulation_at_midnight_def
        loc_update_def ensure_soc_feasibility_def max_charge_of_def max_discharge_of_def
        clip_def add_cop_fields_def)

lemma pipeline_claim_target:
  "map target_mw (take 1 (projr
     (case apply_as_commitments
             (ensure_soc_feasibility tight_profile (generate_default_plan tight_profile [0..<24]))
             regulation_at_midnight of
        Inl e \<Rightarrow> Inl e
      | Inr cop \<Rightarrow> Inr (add_cop_fields tight_profile cop))))
   = [0]"
  by (simp add: upt24 generate_default_plan_def calculate_soc_trajectory_def
        default_row_def Let_def bess_lsl_def bess_hsl_def tight_profile_def soc_change_of_def
        apply_as_commitments_def apply_as_hour_def as_loc_def regulation_at_midnight_def
        loc_update_def ensure_soc_feasibility_def max_charge_of_def max_discharge_of_def
        clip_def add_cop_fields_def)

text \<open>
  C4, as stated, fails. Capacity 10, efficiency 1, SOC bounds 0 and 10, one day from
  midnight, no forecast, regulation committed for the first hour. The base plan charges
  8 from SOC 5, which the bound 10 does not allow. In the code the overlay first sets the
  target of the first hour to 0 and the repair then overwrites it with \<open>lsl = -10\<close>;
  repairing first and overlaying second would leave it at 0.
\<close>

theorem pipeline_order_counterexample:
  "generate_cop tight_profile 0 1 None (Some regulation_at_midnight)
   \<noteq> (case apply_as_commitments
              (ensure_soc_feasibility tight_profile
                 (generate_default_plan tight_profile [0..<24]))
              regulation_at_midnight of
         Inl e \<Rightarrow> Inl e
       | Inr cop \<Rightarrow> Inr (add_cop_fields tight_profile cop))"
proof
  assume "generate_cop tight_profile 0 1 None (Some regulation_at_midnight)
          = (case apply_as_commitments
                    (ensure_soc_feasibility tight_profile
                       (generate_default_plan tight_profile [0..<24]))
                    regulation_at_midnight of
               Inl e \<Rightarrow> Inl e
             | Inr cop \<Rightarrow> Inr (add_cop_fields tight_profile cop))"
  then have "[- 10 :: real] = [0]"
    using pipeline_code_target pipeline_claim_target by simp
  then show False by simp
qed

subsection \<open>No profile check\<close>

text \<open>
  C5, as the code has it. \<^verbatim>\<open>generate_cop\<close> checks nothing about the profile. Whether the
  call fails does not depend on the profile: for the same start, number of days, forecast
  and commitments it fails for one profile exactly when it fails for any other. And for
  every profile, with no forecast or a forecast that has one row per timestamp, and with
  no commitments or commitments that have one row per timestamp, it returns a plan of 24
  hours per day.
\<close>

theorem generate_returns_plan:
  "isl (generate_cop b start_date days price_forecast as_commitments)
   = isl (generate_cop b' start_date days price_forecast as_commitments)
   \<and> ((case price_forecast of None \<Rightarrow> True | Some f \<Rightarrow> distinct (map fst (forecast_rows f)))
        \<and> (case as_commitments of None \<Rightarrow> True | Some a \<Rightarrow> distinct (map fst (as_rows a)))
      \<longrightarrow> (\<exists>plan. generate_cop b start_date days price_forecast as_commitments = Inr plan
                  \<and> length plan = days * 24))"
proof -
  have "\<exists>plan. generate_cop b start_date days price_forecast as_commitments = Inr plan
                  \<and> length plan = days * 24"
    if f: "case price_forecast of None \<Rightarrow> True | Some f \<Rightarrow> distinct (map fst (forecast_rows f))"
      and a: "case as_commitments of None \<Rightarrow> True | Some a \<Rightarrow> distinct (map fst (as_rows a))"
  proof -
    obtain base where base: "base_plan b start_date days price_forecast = Inr base"
      "map idx base = [start_date ..< start_date + days * 24]"
      using base_plan_unique [OF f] by blast
    have l: "length base = days * 24"
      using arg_cong [OF base(2), of length] by simp
    have i: "distinct (map idx base)" using base(2) by simp
    show ?thesis
    proof (cases as_commitments)
      case None
      with base(1) l show ?thesis by (simp add: generate_cop_steps ensure_length)
    next
      case (Some c)
      with a have "distinct (map fst (as_rows c))" by simp
      then have "apply_as_commitments base c = Inr (apply_commitments_spec (as_read c) base)"
        using i by (rule apply_as_commitments_distinct)
      with base(1) l Some show ?thesis
        by (simp add: generate_cop_steps ensure_length apply_commitments_spec_def)
    qed
  qed
  then show ?thesis
    using generate_cop_failure_labels [of b start_date days price_forecast as_commitments b']
    by blast
qed

text \<open>
  C5, as stated, fails: for a profile with capacity 0 and minimum SOC equal to maximum
  SOC the call returns a plan.
\<close>

theorem generate_invalid_profile_counterexample:
  "(capacity_mw invalid_profile \<le> 0 \<or> min_soc invalid_profile \<ge> max_soc invalid_profile)
   \<and> \<not> isl (generate_cop invalid_profile 0 7 None None)"
  by (simp add: generate_cop_steps base_plan_def invalid_profile_def)

theorem generate_returns_plan_witness:
  "(case Some two_prices of None \<Rightarrow> True | Some f \<Rightarrow> distinct (map fst (forecast_rows f)))
   \<and> (case Some regulation_at_midnight of
        None \<Rightarrow> True
      | Some a \<Rightarrow> distinct (map fst (as_rows a)))
   \<and> (\<exists>plan. generate_cop invalid_profile 0 7 (Some two_prices) (Some regulation_at_midnight)
               = Inr plan
             \<and> length plan = 7 * 24)"
proof -
  have f: "case Some two_prices of None \<Rightarrow> True
           | Some f \<Rightarrow> distinct (map fst (forecast_rows f))"
    by (simp add: two_prices_def)
  have a: "case Some regulation_at_midnight of None \<Rightarrow> True
           | Some a \<Rightarrow> distinct (map fst (as_rows a))"
    by (simp add: regulation_at_midnight_def)
  show ?thesis
    using f a
      generate_returns_plan
        [of invalid_profile 0 7 "Some two_prices" "Some regulation_at_midnight" invalid_profile]
    by blast
qed

subsection \<open>The default plan under the validator\<close>

lemma take_soc_loop: "take n (soc_loop b s cop) = soc_loop b s (take n cop)"
proof (induction cop arbitrary: n s)
  case (Cons r cop)
  then show ?case by (cases n) simp_all
qed simp

lemma take_calculate_soc_trajectory:
  "take n (calculate_soc_trajectory b i cop) = calculate_soc_trajectory b i (take n cop)"
  by (simp add: calculate_soc_trajectory_def Let_def take_map take_soc_loop)

lemma take_default_plan:
  "take n (generate_default_plan b hours) = generate_default_plan b (take n hours)"
  by (simp add: generate_default_plan_def take_calculate_soc_trajectory take_map)

lemma take_feasibility_loop:
  "take n (feasibility_loop b cop) = take n (feasibility_loop b (take (Suc n) cop))"
proof (induction b cop arbitrary: n rule: feasibility_loop.induct)
  case (1 b cur nxt rest)
  show ?case
  proof (cases n)
    case 0
    then show ?thesis by simp
  next
    case (Suc m)
    show ?thesis
      unfolding Suc using "1.IH" [of _ _ _ _ _ m]
      by (simp add: Let_def)
  qed
qed simp_all

lemma take_ensure:
  "take n (ensure_soc_feasibility b cop)
   = take n (ensure_soc_feasibility b (take (Suc n) cop))"
  unfolding ensure_soc_feasibility_def take_map
  by (subst take_feasibility_loop) (rule refl)

lemma take_add_cop_fields:
  "take n (add_cop_fields b cop) = add_cop_fields b (take n cop)"
  by (simp add: add_cop_fields_def take_map)

lemma error_kept_soc_bounds:
  "f \<in> set (validation_errors v) \<Longrightarrow> f \<in> set (validation_errors (validate_soc_bounds v cop))"
  unfolding validate_soc_bounds_def
  by (rule foldl_invariant) (simp_all add: soc_bounds_row_def Let_def append_error_def append_warning_def)

lemma error_kept_ramp_rates:
  "f \<in> set (validation_errors v) \<Longrightarrow> f \<in> set (validation_errors (validate_ramp_rates v cop))"
proof -
  have "validation_errors (ramp_rates_loop a i cop) = validation_errors a" for a i
    by (induction a i cop rule: ramp_rates_loop.induct)
       (simp_all add: ramp_rates_pair_def Let_def append_warning_def)
  then show "f \<in> set (validation_errors v) \<Longrightarrow> ?thesis"
    by (simp add: validate_ramp_rates_def)
qed

lemma error_kept_as_requirements:
  "f \<in> set (validation_errors v) \<Longrightarrow> f \<in> set (validation_errors (validate_as_requirements v cop))"
  unfolding validate_as_requirements_def
  by (rule foldl_invariant) (simp_all add: as_requirements_row_def Let_def append_warning_def)

lemma error_kept_data_completeness:
  "f \<in> set (validation_errors v)
   \<Longrightarrow> f \<in> set (validation_errors (validate_data_completeness v cop))"
  unfolding validate_data_completeness_def Let_def
  by (rule foldl_invariant) (simp_all add: null_values_field_def append_error_def)

lemma error_kept_timeline:
  "f \<in> set (validation_errors v)
   \<Longrightarrow> f \<in> set (validation_errors (validate_timeline_requirements v cop))"
  by (simp add: validate_timeline_requirements_def append_warning_def)

lemma error_kept_validate:
  assumes "f \<in> set (validation_errors (validate_soc_feasibility (COPValidator_init b) cop))"
  shows "f \<in> set (errors (fst (validate (COPValidator_init b) cop)))"
proof -
  have "(COPValidator_init b)\<lparr>validation_errors := [], validation_warnings := []\<rparr>
        = COPValidator_init b"
    by (simp add: COPValidator_init_def)
  then show ?thesis
    using assms
    by (simp add: validate_def Let_def error_kept_timeline error_kept_data_completeness
          error_kept_as_requirements error_kept_ramp_rates error_kept_soc_bounds)
qed

lemma upt6: "[0..<6] = [0, 1, 2, 3, 4, 5]"
  by (simp add: upt_rec)

lemma demo_plan_prefix:
  "map (\<lambda>r. (soc_begin r, soc_min r, soc_max r, hsl r, lsl r))
     (take 5 (add_cop_fields demo_profile
        (ensure_soc_feasibility demo_profile (generate_default_plan demo_profile [0..<6]))))
   = [(100, 0, 186, 100, - 100), (168.8, 68.8, 200, 100, - 100), (200, 137.6, 200, 100, - 100),
      (200, 206.4, 200, 100, - 100), (200, 275.2, 200, 100, - 100)]"
  by (simp add: upt6 generate_default_plan_def calculate_soc_trajectory_def
        default_row_def Let_def bess_lsl_def bess_hsl_def demo_profile_def soc_change_of_def
        ensure_soc_feasibility_def max_charge_of_def max_discharge_of_def clip_def add_cop_fields_def)

text \<open>
  C1 fails on the code. For the profile of the module's own example run (100 MW,
  200 MWh, efficiency 0.86, SOC bounds 0 and 200), the default 168-hour plan from
  midnight is returned and the validator rejects it: hour 3 has SOC 200 after the
  repair, while its \<^verbatim>\<open>soc_min\<close> cell still holds 206.4 from the trajectory before the
  repair, so the validator's discharge limit is \<open>min 100 (200 - 206.4) = -6.4\<close> and the
  unchanged SOC of hour 4 counts as an infeasible discharge.
\<close>

theorem default_plan_fails_own_validator:
  "capacity_mw demo_profile > 0 \<and> min_soc demo_profile < max_soc demo_profile
   \<and> \<not> isl (generate_cop demo_profile 0 7 None None)
   \<and> length (projr (generate_cop demo_profile 0 7 None None)) = 168
   \<and> discharge_finding 3
       \<in> set (errors (fst (validate (COPValidator_init demo_profile)
                              (projr (generate_cop demo_profile 0 7 None None)))))
   \<and> \<not> valid (fst (validate (COPValidator_init demo_profile)
                     (projr (generate_cop demo_profile 0 7 None None))))"
proof -
  let ?b = demo_profile
  let ?P = "add_cop_fields ?b (ensure_soc_feasibility ?b (generate_default_plan ?b [0..<168]))"
  let ?X = "add_cop_fields ?b (ensure_soc_feasibility ?b (generate_default_plan ?b [0..<6]))"
  have g: "generate_cop ?b 0 7 None None = Inr ?P"
    by (simp add: generate_cop_steps base_plan_def)
  have len: "length ?P = 168"
    by (simp add: ensure_length)
  have "take 5 ?P = take 5 ?X"
    unfolding take_add_cop_fields
    by (subst take_ensure, subst (2) take_ensure) (simp add: take_default_plan)
  then have p: "map (\<lambda>r. (soc_begin r, soc_min r, soc_max r, hsl r, lsl r)) (take 5 ?P)
      = [(100, 0, 186, 100, - 100), (168.8, 68.8, 200, 100, - 100), (200, 137.6, 200, 100, - 100),
         (200, 206.4, 200, 100, - 100), (200, 275.2, 200, 100, - 100)]"
    by (simp only: demo_plan_prefix)
  have n3: "(soc_begin (?P ! 3), soc_min (?P ! 3), soc_max (?P ! 3), hsl (?P ! 3), lsl (?P ! 3))
            = (200, 206.4, 200, 100, - 100)"
    using arg_cong [OF p, of "\<lambda>xs. xs ! 3"] len by (simp add: nth_map del: take_map)
  have n4: "soc_begin (?P ! 4) = 200"
    using arg_cong [OF p, of "\<lambda>xs. fst (xs ! 4)"] len by (simp add: nth_map del: take_map)
  have "discharge_finding 3
          \<in> set (validation_errors (validate_soc_feasibility (COPValidator_init ?b) ?P))"
    unfolding validate_soc_feasibility_def soc_feasibility_loop_discharge
    using n3 n4 len
    by (simp add: COPValidator_init_def row_max_charge_def row_max_discharge_def demo_profile_def)
  then have e: "discharge_finding 3 \<in> set (errors (fst (validate (COPValidator_init ?b) ?P)))"
    by (rule error_kept_validate)
  then have "errors (fst (validate (COPValidator_init ?b) ?P)) \<noteq> []" by auto
  then have v: "\<not> valid (fst (validate (COPValidator_init ?b) ?P))"
    by (simp add: validate_report)
  have c: "capacity_mw ?b > 0 \<and> min_soc ?b < max_soc ?b"
    by (simp add: demo_profile_def)
  from c e v len show ?thesis unfolding g by simp
qed

end
